(* ===== verification/Vault_Prelude.thy ===== *)
theory Vault_Prelude
  imports Main "HOL-Library.Sublist" "HOL-Library.AList"
begin

text \<open>
  What every component of the development shares: the names of the basic types, the fact
  collections that carry the component proofs, and generic lemmas on lists, association
  lists (Go maps, see below) and results.

  A Go string is a sequence of bytes: it is modelled as \<open>string\<close>, a list of 8-bit
  characters. A Go map is modelled as an association list with distinct keys whose order
  is one possible iteration order of \<^verbatim>\<open>range\<close>; a nil map is \<^term>\<open>None\<close>. A Go
  function that returns \<^verbatim>\<open>(T, error)\<close> returns a sum, \<open>Inl\<close> being the error.
\<close>

section \<open>Types\<close>

type_synonym bytes = string

type_synonym ('k, 'v) gomap = "('k \<times> 'v) list"

abbreviation slash :: char where
  "slash \<equiv> CHR ''/''"

section \<open>Fact collections\<close>

named_theorems path_facts \<open>characterisations of the path operations\<close>

named_theorems map_facts \<open>lookup, insertion and deletion on Go maps\<close>

named_theorems world_facts \<open>what a call leaves unchanged in the outside world\<close>

section \<open>Lists\<close>

lemma prefix_snoc_iff:
  "prefix (xs @ [c]) ys \<longleftrightarrow> (\<exists>zs. ys = xs @ c # zs)"
  by (auto simp: prefix_def)

lemma suffix_appendI [intro, simp]: "suffix ys (xs @ ys)"
  by (simp add: suffix_def)

lemma list_all_snoc [simp]: "list_all P (xs @ [x]) \<longleftrightarrow> list_all P xs \<and> P x"
  by simp

section \<open>Go maps\<close>

text \<open>
  \<^term>\<open>map_of\<close> is the lookup \<^verbatim>\<open>m[k]\<close>, \<^term>\<open>AList.update\<close> the assignment
  \<^verbatim>\<open>m[k] = v\<close> and \<^term>\<open>AList.delete\<close> the built-in \<^verbatim>\<open>delete(m, k)\<close>.
\<close>

definition wf_map :: "('k, 'v) gomap \<Rightarrow> bool" where
  "wf_map m \<longleftrightarrow> distinct (map fst m)"

lemma wf_map_Nil [simp]: "wf_map []"
  by (simp add: wf_map_def)

lemma wf_map_update [simp]: "wf_map m \<Longrightarrow> wf_map (AList.update k v m)"
  unfolding wf_map_def by (rule distinct_update)

lemma wf_map_delete [simp]: "wf_map m \<Longrightarrow> wf_map (AList.delete k m)"
  unfolding wf_map_def by (rule distinct_delete)

lemma map_of_iff_mem [map_facts]:
  "wf_map m \<Longrightarrow> map_of m k = Some v \<longleftrightarrow> (k, v) \<in> set m"
  by (simp add: wf_map_def)

lemma set_update_wf [map_facts]:
  assumes "wf_map m"
  shows "(k', v') \<in> set (AList.update k v m) \<longleftrightarrow>
    (if k' = k then v' = v else (k', v') \<in> set m)"
proof -
  have "(k', v') \<in> set (AList.update k v m) \<longleftrightarrow> map_of (AList.update k v m) k' = Some v'"
    using assms by (simp add: map_of_iff_mem)
  also have "\<dots> \<longleftrightarrow> (if k' = k then v' = v else map_of m k' = Some v')"
    by (auto simp: update_conv')
  also have "\<dots> \<longleftrightarrow> (if k' = k then v' = v else (k', v') \<in> set m)"
    using assms by (simp add: map_of_iff_mem)
  finally show ?thesis .
qed

lemma set_delete_wf [map_facts]:
  "(k', v') \<in> set (AList.delete k m) \<longleftrightarrow> k' \<noteq> k \<and> (k', v') \<in> set m"
  by (auto simp: AList.delete_eq)

lemma map_of_update_iff [map_facts]:
  "map_of (AList.update k v m) k' = (if k' = k then Some v else map_of m k')"
  by (simp add: update_conv')

lemma map_of_delete_iff [map_facts]:
  "map_of (AList.delete k m) k' = (if k' = k then None else map_of m k')"
  by (simp add: delete_conv')

text \<open>A map has the same lookups in every iteration order.\<close>

lemma map_of_order_irrelevant:
  "wf_map m \<Longrightarrow> wf_map m' \<Longrightarrow> set m = set m' \<Longrightarrow> map_of m = map_of m'"
  unfolding wf_map_def by (rule map_of_inject_set [THEN iffD2])

end
