(* ===== verification/Go_Strings.thy ===== *)
theory Go_Strings
  imports Vault_Prelude
begin

text \<open>
  The functions of Go's package \<^verbatim>\<open>strings\<close> that the program calls, over byte strings:
  prefix and suffix tests and trims, splitting at a one-byte separator, white-space
  trimming (with the UTF-8 encodings of the Unicode white space that
  \<^verbatim>\<open>strings.TrimSpace\<close> removes) and character searches.
\<close>

section \<open>Prefixes, suffixes, searches\<close>

definition hasPrefix :: "string \<Rightarrow> string \<Rightarrow> bool" where
  "hasPrefix s p = prefix p s"

definition hasSuffix :: "string \<Rightarrow> string \<Rightarrow> bool" where
  "hasSuffix s p = suffix p s"

definition trimPrefix :: "string \<Rightarrow> string \<Rightarrow> string" where
  "trimPrefix s p = (if hasPrefix s p then drop (length p) s else s)"

definition trimSuffix :: "string \<Rightarrow> string \<Rightarrow> string" where
  "trimSuffix s p = (if hasSuffix s p then take (length s - length p) s else s)"

definition containsAny :: "string \<Rightarrow> string \<Rightarrow> bool" where
  "containsAny s chars = list_ex (\<lambda>c. c \<in> set chars) s"

definition containsChar :: "string \<Rightarrow> char \<Rightarrow> bool" where
  "containsChar s c = (c \<in> set s)"

definition countChar :: "string \<Rightarrow> char \<Rightarrow> nat" where
  "countChar s c = count_list s c"

text \<open>\<^verbatim>\<open>strings.Trim(s, "/")\<close>: every leading and trailing byte of the cut set.\<close>

definition trimChar :: "string \<Rightarrow> char \<Rightarrow> string" where
  "trimChar s c = rev (dropWhile (\<lambda>x. x = c) (rev (dropWhile (\<lambda>x. x = c) s)))"

lemma trimSuffix_append [simp]: "trimSuffix (s @ p) p = s"
  by (simp add: trimSuffix_def hasSuffix_def)

lemma trimPrefix_append [simp]: "trimPrefix (p @ s) p = s"
  by (simp add: trimPrefix_def hasPrefix_def)

lemma hasSuffixE:
  assumes "hasSuffix s p"
  obtains r where "s = r @ p" and "trimSuffix s p = r"
  using assms by (auto simp: hasSuffix_def suffix_def)

section \<open>Splitting and joining\<close>

fun split_on :: "char \<Rightarrow> string \<Rightarrow> string list" where
  "split_on c [] = [[]]"
| "split_on c (x # xs) =
     (if x = c then [] # split_on c xs
      else (case split_on c xs of [] \<Rightarrow> [[x]] | y # ys \<Rightarrow> (x # y) # ys))"

fun join_with :: "char \<Rightarrow> string list \<Rightarrow> string" where
  "join_with c [] = []"
| "join_with c [x] = x"
| "join_with c (x # y # xs) = x @ c # join_with c (y # xs)"

text \<open>\<^verbatim>\<open>strings.SplitN(s, sep, 2)\<close> for a one-byte separator.\<close>

definition splitN2 :: "char \<Rightarrow> string \<Rightarrow> string list" where
  "splitN2 c s = (case dropWhile (\<lambda>x. x \<noteq> c) s of
     [] \<Rightarrow> [s]
   | _ # rest \<Rightarrow> [takeWhile (\<lambda>x. x \<noteq> c) s, rest])"

lemma split_on_not_Nil [simp]: "split_on c s \<noteq> []"
  by (induction s) (auto split: list.splits)

lemma split_on_free [simp]: "c \<notin> set s \<Longrightarrow> split_on c s = [s]"
  by (induction s) auto

lemma split_on_append:
  "split_on c (a @ c # b) = split_on c a @ split_on c b"
  by (induction a) (auto split: list.splits)

lemma split_on_parts_free: "x \<in> set (split_on c s) \<Longrightarrow> c \<notin> set x"
  by (induction s arbitrary: x) (auto split: list.splits if_splits)

lemma join_split [simp]: "join_with c (split_on c s) = s"
proof (induction s)
  case Nil
  show ?case by simp
next
  case (Cons a s)
  obtain y ys where y: "split_on c s = y # ys"
    by (cases "split_on c s") auto
  with Cons show ?case
    by (cases ys) auto
qed

lemma join_with_Cons:
  "xs \<noteq> [] \<Longrightarrow> join_with c (x # xs) = x @ c # join_with c xs"
  by (cases xs) auto

lemma split_join:
  "xs \<noteq> [] \<Longrightarrow> (\<And>x. x \<in> set xs \<Longrightarrow> c \<notin> set x) \<Longrightarrow> split_on c (join_with c xs) = xs"
proof (induction xs)
  case (Cons x xs)
  then show ?case
    by (cases "xs = []") (auto simp: join_with_Cons split_on_append)
qed simp

lemma join_with_append:
  "xs \<noteq> [] \<Longrightarrow> ys \<noteq> [] \<Longrightarrow> join_with c (xs @ ys) = join_with c xs @ c # join_with c ys"
proof (induction xs)
  case (Cons a xs)
  then show ?case
    by (cases "xs = []") (auto simp: join_with_Cons)
qed simp

lemma dropWhile_free: "c \<notin> set a \<Longrightarrow> dropWhile (\<lambda>x. x \<noteq> c) (a @ t) = dropWhile (\<lambda>x. x \<noteq> c) t"
  by (induction a) auto

lemma takeWhile_free: "c \<notin> set a \<Longrightarrow> takeWhile (\<lambda>x. x \<noteq> c) (a @ t) = a @ takeWhile (\<lambda>x. x \<noteq> c) t"
  by (induction a) auto

lemma splitN2_free:
  assumes "c \<notin> set s"
  shows "splitN2 c s = [s]"
proof -
  from assms have "dropWhile (\<lambda>x. x \<noteq> c) s = []"
    by (induction s) auto
  then show ?thesis by (simp only: splitN2_def list.case)
qed

lemma splitN2_append: "c \<notin> set a \<Longrightarrow> splitN2 c (a @ c # b) = [a, b]"
  by (simp add: splitN2_def dropWhile_free takeWhile_free)

lemma splitN2_cases:
  obtains (none) "c \<notin> set s" and "splitN2 c s = [s]"
  | (cut) a b where "s = a @ c # b" and "c \<notin> set a" and "splitN2 c s = [a, b]"
proof (cases "c \<in> set s")
  case True
  then obtain a b where "s = a @ c # b" "c \<notin> set a"
    by (meson split_list_first)
  then show ?thesis by (auto intro: cut simp: splitN2_append)
next
  case False
  then show ?thesis by (auto intro: none simp: splitN2_free)
qed

section \<open>White space\<close>

text \<open>
  The byte sequences that encode a character of \<^verbatim>\<open>unicode.IsSpace\<close> in UTF-8. None of
  them is a proper prefix or suffix of another, and each starts at a rune boundary
  wherever it occurs, so trimming runes is trimming these sequences.
\<close>

definition space_encodings :: "string list" where
  "space_encodings =
     [[CHR 0x09], [CHR 0x0A], [CHR 0x0B], [CHR 0x0C], [CHR 0x0D], [CHR 0x20],
      [CHR 0xC2, CHR 0x85], [CHR 0xC2, CHR 0xA0], [CHR 0xE1, CHR 0x9A, CHR 0x80],
      [CHR 0xE2, CHR 0x80, CHR 0x80], [CHR 0xE2, CHR 0x80, CHR 0x81],
      [CHR 0xE2, CHR 0x80, CHR 0x82], [CHR 0xE2, CHR 0x80, CHR 0x83],
      [CHR 0xE2, CHR 0x80, CHR 0x84], [CHR 0xE2, CHR 0x80, CHR 0x85],
      [CHR 0xE2, CHR 0x80, CHR 0x86], [CHR 0xE2, CHR 0x80, CHR 0x87],
      [CHR 0xE2, CHR 0x80, CHR 0x88], [CHR 0xE2, CHR 0x80, CHR 0x89],
      [CHR 0xE2, CHR 0x80, CHR 0x8A], [CHR 0xE2, CHR 0x80, CHR 0xA8],
      [CHR 0xE2, CHR 0x80, CHR 0xA9], [CHR 0xE2, CHR 0x80, CHR 0xAF],
      [CHR 0xE2, CHR 0x81, CHR 0x9F], [CHR 0xE3, CHR 0x80, CHR 0x80]]"

fun strip_one :: "string list \<Rightarrow> string \<Rightarrow> string option" where
  "strip_one [] s = None"
| "strip_one (q # qs) s =
     (if q \<noteq> [] \<and> prefix q s then Some (drop (length q) s) else strip_one qs s)"

lemma strip_one_shorter: "strip_one qs s = Some t \<Longrightarrow> length t < length s"
proof (induction qs)
  case (Cons q qs)
  show ?case
  proof (cases "q \<noteq> [] \<and> prefix q s")
    case True
    then have "s \<noteq> []" by (auto simp: prefix_def)
    with True Cons.prems show ?thesis by auto
  next
    case False
    with Cons show ?thesis by auto
  qed
qed simp

function strip_all :: "string list \<Rightarrow> string \<Rightarrow> string" where
  "strip_all qs s = (case strip_one qs s of None \<Rightarrow> s | Some t \<Rightarrow> strip_all qs t)"
  by pat_completeness auto
termination
  by (relation "measure (\<lambda>(qs, s). length s)") (auto simp: strip_one_shorter)

declare strip_all.simps [simp del]

definition trimSpace :: "string \<Rightarrow> string" where
  "trimSpace s =
     rev (strip_all (map rev space_encodings) (rev (strip_all space_encodings s)))"

lemma strip_all_suffix: "suffix (strip_all qs s) s"
proof (induction qs s rule: strip_all.induct)
  case (1 qs s)
  show ?case
  proof (cases "strip_one qs s")
    case None
    then show ?thesis by (simp add: strip_all.simps [of qs s])
  next
    case (Some t)
    have "suffix t s"
      using Some by (induction qs) (auto split: if_splits simp: suffix_drop)
    moreover have "suffix (strip_all qs t) t"
      using "1" Some by simp
    ultimately show ?thesis
      using Some suffix_order.trans by (simp add: strip_all.simps [of qs s])
  qed
qed

text \<open>Trimming only removes bytes at the two ends.\<close>

lemma trimSpace_sublist: "\<exists>a b. s = a @ trimSpace s @ b"
proof -
  let ?l = "strip_all space_encodings s"
  obtain a where a: "s = a @ ?l"
    using strip_all_suffix [of space_encodings s] by (auto simp: suffix_def)
  obtain b where "rev ?l = b @ strip_all (map rev space_encodings) (rev ?l)"
    using strip_all_suffix [of "map rev space_encodings" "rev ?l"] by (auto simp: suffix_def)
  then have "?l = trimSpace s @ rev b"
    unfolding trimSpace_def by (metis rev_append rev_rev_ident)
  with a show ?thesis by metis
qed

lemma set_trimSpace: "set (trimSpace s) \<subseteq> set s"
  using trimSpace_sublist [of s] by (metis Un_iff set_append subsetI)

end
