(* ===== verification/Go_Path.thy ===== *)
theory Go_Path
  imports Go_Strings
begin

text \<open>
  Go's package \<^verbatim>\<open>path\<close> (\<^verbatim>\<open>Clean\<close>, \<^verbatim>\<open>Base\<close>, \<^verbatim>\<open>Dir\<close>, \<^verbatim>\<open>Join\<close>) on byte strings, by the
  documented rules: empty and \<^verbatim>\<open>.\<close> segments vanish, \<^verbatim>\<open>..\<close> removes the segment before
  it, and \<^verbatim>\<open>..\<close> at the root vanishes. The abstract view of a rooted path is its list of
  segments \<open>abs_path\<close>; \<open>render\<close> is the inverse on canonical paths.
\<close>

section \<open>The operations\<close>

fun clean_segs :: "bool \<Rightarrow> string list \<Rightarrow> string list \<Rightarrow> string list" where
  "clean_segs rooted acc [] = rev acc"
| "clean_segs rooted acc (s # ss) =
     (if s = [] \<or> s = ''.'' then clean_segs rooted acc ss
      else if s = ''..'' then
        (case acc of
           [] \<Rightarrow> clean_segs rooted (if rooted then [] else [''..'']) ss
         | a # as \<Rightarrow>
             if a = ''..'' then clean_segs rooted (''..'' # acc) ss
             else clean_segs rooted as ss)
      else clean_segs rooted (s # acc) ss)"

definition rooted :: "string \<Rightarrow> bool" where
  "rooted p \<longleftrightarrow> hasPrefix p ''/''"

definition path_clean :: "string \<Rightarrow> string" where
  "path_clean p =
     (if p = [] then ''.''
      else if rooted p then slash # join_with slash (clean_segs True [] (split_on slash p))
      else (let cs = clean_segs False [] (split_on slash p)
            in if cs = [] then ''.'' else join_with slash cs))"

text \<open>\<^verbatim>\<open>path.Base\<close>: strip trailing slashes, then keep what follows the last slash.\<close>

definition path_base :: "string \<Rightarrow> string" where
  "path_base p =
     (if p = [] then ''.''
      else (let q = rev (dropWhile (\<lambda>c. c = slash) (rev p));
                b = last (split_on slash q)
            in if b = [] then ''/'' else b))"

text \<open>\<^verbatim>\<open>path.Dir\<close>: clean what precedes and includes the last slash.\<close>

definition path_dir :: "string \<Rightarrow> string" where
  "path_dir p = path_clean (rev (dropWhile (\<lambda>c. c \<noteq> slash) (rev p)))"

text \<open>\<^verbatim>\<open>path.Join(a, b)\<close>: empty elements are ignored.\<close>

definition path_join :: "string \<Rightarrow> string \<Rightarrow> string" where
  "path_join a b =
     (if a = [] \<and> b = [] then []
      else if a = [] then path_clean b
      else if b = [] then path_clean a
      else path_clean (a @ slash # b))"

section \<open>The abstract view: a list of segments\<close>

definition good_seg :: "string \<Rightarrow> bool" where
  "good_seg s \<longleftrightarrow> s \<noteq> [] \<and> s \<noteq> ''.'' \<and> s \<noteq> ''..'' \<and> slash \<notin> set s"

definition abs_path :: "string \<Rightarrow> string list" where
  "abs_path p = clean_segs True [] (split_on slash p)"

definition render :: "string list \<Rightarrow> string" where
  "render ss = slash # join_with slash ss"

definition canonical :: "string \<Rightarrow> bool" where
  "canonical p \<longleftrightarrow> rooted p \<and> render (abs_path p) = p"

lemma rooted_Cons [simp]: "rooted (c # p) \<longleftrightarrow> c = slash"
  by (auto simp: rooted_def hasPrefix_def)

lemma rooted_Nil [simp]: "\<not> rooted []"
  by (simp add: rooted_def hasPrefix_def)

lemma rooted_render [simp]: "rooted (render ss)"
  by (simp add: render_def)

lemma path_clean_rooted [path_facts]: "rooted p \<Longrightarrow> path_clean p = render (abs_path p)"
  by (cases p) (auto simp: path_clean_def render_def abs_path_def)

lemma clean_segs_good:
  assumes "\<And>a. a \<in> set acc \<Longrightarrow> good_seg a" and "\<And>s. s \<in> set ss \<Longrightarrow> slash \<notin> set s"
  shows "list_all good_seg (clean_segs True acc ss)"
  using assms
proof (induction ss arbitrary: acc)
  case Nil
  then show ?case by (auto simp: list_all_iff)
next
  case (Cons s ss)
  show ?case
  proof (cases "s = [] \<or> s = ''.''")
    case True
    with Cons show ?thesis by (auto simp: list_all_iff)
  next
    case nodot: False
    show ?thesis
    proof (cases "s = ''..''")
      case True
      have "a \<in> set acc" if "a \<in> set (tl acc)" for a
        using that by (cases acc) auto
      then have "list_all good_seg (clean_segs True (tl acc) ss)"
        using Cons.prems by (intro Cons.IH) auto
      moreover have "''..'' \<notin> set acc"
        using Cons.prems(1) by (auto simp: good_seg_def)
      ultimately show ?thesis
        using True by (cases acc) auto
    next
      case False
      have "list_all good_seg (clean_segs True (s # acc) ss)"
        using Cons.prems nodot False by (intro Cons.IH) (auto simp: good_seg_def)
      with nodot False show ?thesis by simp
    qed
  qed
qed

lemma abs_path_good: "list_all good_seg (abs_path p)"
  unfolding abs_path_def by (rule clean_segs_good) (auto dest: split_on_parts_free)

lemma clean_segs_id:
  "list_all good_seg ss \<Longrightarrow> clean_segs True acc ss = rev acc @ ss"
  by (induction ss arbitrary: acc) (auto simp: good_seg_def)

lemma good_segs_free: "list_all good_seg ss \<Longrightarrow> x \<in> set ss \<Longrightarrow> slash \<notin> set x"
  by (auto simp: list_all_iff good_seg_def)

lemma split_render:
  assumes "list_all good_seg ss"
  shows "split_on slash (render ss) = [] # (if ss = [] then [[]] else ss)"
  using assms by (auto simp: render_def split_join good_segs_free)

lemma abs_render [path_facts]:
  assumes "list_all good_seg ss"
  shows "abs_path (render ss) = ss"
  using assms by (auto simp: abs_path_def split_render clean_segs_id)

lemma canonical_render: "list_all good_seg ss \<Longrightarrow> canonical (render ss)"
  by (simp add: canonical_def abs_render)

lemma canonicalE:
  assumes "canonical p"
  obtains ss where "p = render ss" and "list_all good_seg ss" and "abs_path p = ss"
  using assms abs_path_good [of p] by (metis canonical_def)

lemma canonical_iff_clean: "rooted p \<Longrightarrow> canonical p \<longleftrightarrow> path_clean p = p"
  by (simp add: canonical_def path_clean_rooted)

lemma canonical_clean: "rooted p \<Longrightarrow> canonical (path_clean p)"
  by (simp add: path_clean_rooted canonical_render abs_path_good)

lemma clean_canonical [path_facts]: "canonical p \<Longrightarrow> path_clean p = p"
  by (simp add: canonical_def path_clean_rooted)

lemma abs_path_clean: "rooted p \<Longrightarrow> abs_path (path_clean p) = abs_path p"
  by (simp add: path_clean_rooted abs_render abs_path_good)

lemma render_inject:
  "list_all good_seg xs \<Longrightarrow> list_all good_seg ys \<Longrightarrow> render xs = render ys \<longleftrightarrow> xs = ys"
  using abs_render by metis

lemma canonical_eq_iff: "canonical p \<Longrightarrow> canonical q \<Longrightarrow> p = q \<longleftrightarrow> abs_path p = abs_path q"
  by (metis canonical_def)

section \<open>Base and join on canonical paths\<close>

lemma last_render:
  assumes "list_all good_seg (xs @ [z])"
  shows "render (xs @ [z]) \<noteq> []" and "last (render (xs @ [z])) \<noteq> slash"
proof -
  have "z \<noteq> []" "slash \<notin> set z"
    using assms by (simp_all add: good_seg_def)
  then have z: "z \<noteq> []" "last z \<noteq> slash"
    using last_in_set [of z] by metis+
  have "render (xs @ [z]) = (if xs = [] then slash # z else render xs @ slash # z)"
    by (cases "xs = []") (simp_all add: render_def join_with_append)
  with z show "render (xs @ [z]) \<noteq> []" and "last (render (xs @ [z])) \<noteq> slash"
    by (auto split: if_splits)
qed

lemma path_base_render [path_facts]:
  assumes "list_all good_seg (xs @ [z])"
  shows "path_base (render (xs @ [z])) = z"
proof -
  let ?p = "render (xs @ [z])"
  have "dropWhile (\<lambda>c. c = slash) (rev ?p) = rev ?p"
    using last_render [OF assms] by (simp add: dropWhile_eq_self_iff hd_rev)
  moreover have "last (split_on slash ?p) = z"
    using split_render [OF assms] by simp
  moreover have "z \<noteq> []" using assms by (simp add: good_seg_def)
  ultimately show ?thesis
    using last_render(1) [OF assms] by (simp add: path_base_def Let_def)
qed

lemma path_join_render [path_facts]:
  assumes "list_all good_seg (xs @ [z])"
  shows "path_join (render xs) z = render (xs @ [z])"
proof -
  have "path_join (render xs) z = path_clean (render xs @ slash # z)"
    using assms by (simp add: path_join_def render_def good_seg_def)
  also have "split_on slash (render xs @ slash # z) = [] # (if xs = [] then [[]] else xs) @ [z]"
    using assms by (auto simp: split_on_append split_render good_seg_def list_all_iff)
  then have "abs_path (render xs @ slash # z) = xs @ [z]"
    using assms clean_segs_id [of "xs @ [z]" "[]"] by (auto simp: abs_path_def)
  then have "path_clean (render xs @ slash # z) = render (xs @ [z])"
    by (subst path_clean_rooted) (simp_all add: render_def)
  finally show ?thesis .
qed

section \<open>Byte prefixes are segment prefixes\<close>

lemma render_append:
  "xs \<noteq> [] \<Longrightarrow> ys \<noteq> [] \<Longrightarrow> render (xs @ ys) = render xs @ slash # join_with slash ys"
  by (simp add: render_def join_with_append)

text \<open>
  A canonical path \<open>q\<close> starts with the bytes of \<open>p\<close> followed by a slash exactly when the
  segments of \<open>p\<close> are a proper prefix of those of \<open>q\<close>: a prefix test on bytes that
  includes the separator cannot confuse \<^verbatim>\<open>/nats\<close> with \<^verbatim>\<open>/natsx\<close>.
\<close>

lemma prefix_render_slash:
  assumes xs: "list_all good_seg xs" "xs \<noteq> []" and ys: "list_all good_seg ys"
  shows "prefix (render xs @ ''/'') (render ys) \<longleftrightarrow> strict_prefix xs ys"
proof
  assume "prefix (render xs @ ''/'') (render ys)"
  then obtain w where w: "render ys = render xs @ slash # w"
    by (auto simp: prefix_def)
  from arg_cong [where f = "split_on slash", OF w]
  have "[] # (if ys = [] then [[]] else ys) = ([] # xs) @ split_on slash w"
    using xs ys by (simp add: split_on_append split_render)
  then have "ys = xs @ split_on slash w"
    using xs by (cases "ys = []") (auto simp: good_seg_def Cons_eq_append_conv)
  then show "strict_prefix xs ys"
    by (auto simp: strict_prefix_def prefix_def)
next
  assume "strict_prefix xs ys"
  then obtain zs where "ys = xs @ zs" "zs \<noteq> []"
    by (auto simp: strict_prefix_def prefix_def)
  with xs show "prefix (render xs @ ''/'') (render ys)"
    by (simp add: render_append)
qed

text \<open>Whether \<open>q\<close> lies strictly below \<open>p\<close> in the tree.\<close>

definition below :: "string \<Rightarrow> string \<Rightarrow> bool" where
  "below p q \<longleftrightarrow> strict_prefix (abs_path p) (abs_path q)"

lemma prefix_slash_below [path_facts]:
  assumes "canonical p" "p \<noteq> ''/''" "canonical q"
  shows "hasPrefix q (p @ ''/'') \<longleftrightarrow> below p q"
proof -
  from assms obtain xs ys where xs: "p = render xs" "list_all good_seg xs" "abs_path p = xs"
    and ys: "q = render ys" "list_all good_seg ys" "abs_path q = ys"
    by (metis canonicalE)
  from assms(2) xs(1) have "xs \<noteq> []"
    by (auto simp: render_def)
  with xs ys show ?thesis
    using prefix_render_slash by (simp add: hasPrefix_def below_def)
qed

text \<open>For a prefix that is rooted but perhaps not canonical, nothing else can match.\<close>

lemma prefix_slash_iff [path_facts]:
  assumes "rooted p" "canonical q"
  shows "hasPrefix q (p @ ''/'') \<longleftrightarrow> canonical p \<and> p \<noteq> ''/'' \<and> below p q"
proof
  assume pre: "hasPrefix q (p @ ''/'')"
  then obtain w where w: "q = p @ slash # w"
    by (auto simp: hasPrefix_def prefix_def)
  obtain ys where ys: "q = render ys" "list_all good_seg ys"
    using assms(2) by (metis canonicalE)
  obtain p' where p': "p = slash # p'"
    using assms(1) by (cases p) auto
  have "[] # (if ys = [] then [[]] else ys) = ([] # split_on slash p') @ split_on slash w"
    using w ys split_render [of ys] p' split_on_append [of slash p w] by simp
  then have xs: "ys = split_on slash p' @ split_on slash w"
    by (cases "ys = []") (auto simp: Cons_eq_append_conv)
  then have "list_all good_seg (split_on slash p')"
    using ys(2) by simp
  moreover have "p = render (split_on slash p')"
    by (simp add: p' render_def)
  ultimately have "canonical p" and "p' \<noteq> []"
    by (metis canonical_render) (use \<open>list_all good_seg (split_on slash p')\<close> in \<open>auto simp: good_seg_def\<close>)
  moreover from \<open>p' \<noteq> []\<close> have "p \<noteq> ''/''"
    by (simp add: p')
  ultimately show "canonical p \<and> p \<noteq> ''/'' \<and> below p q"
    using pre assms(2) by (simp add: prefix_slash_below)
next
  assume "canonical p \<and> p \<noteq> ''/'' \<and> below p q"
  with assms(2) show "hasPrefix q (p @ ''/'')"
    by (simp add: prefix_slash_below)
qed

lemma below_irrefl: "\<not> below p p"
  by (simp add: below_def)

lemma below_trans: "below p q \<Longrightarrow> below q r \<Longrightarrow> below p r"
  unfolding below_def by (rule prefix_order.less_trans)

end
