(* ===== verification/Vault_Paths.thy ===== *)
theory Vault_Paths
  imports Go_Path
begin

text \<open>
  Vault paths as the program handles them (ui.go): \<open>normalizePath\<close> adds the leading
  slash, \<open>validateVaultPath\<close> accepts only canonical paths without control characters.
\<close>

section \<open>Operations\<close>

definition normalizePath :: "string \<Rightarrow> string" where
  "normalizePath p =
     (if p = [] \<or> p = ''/'' then ''/''
      else if \<not> hasPrefix p ''/'' then ''/'' @ p
      else p)"

datatype path_error =
    PathRequired
  | PathHasControl
  | PathNotCanonical string

text \<open>
  Whether some rune of a byte string satisfies \<^verbatim>\<open>unicode.IsControl\<close>: the C0 controls and
  DEL are single bytes, the C1 controls U+0080 to U+009F are the byte C2 followed by 80
  to 9F (C2 always starts a rune, so the pair is found at a rune boundary).
\<close>

fun has_control :: "string \<Rightarrow> bool" where
  "has_control [] = False"
| "has_control [c] = (of_char c < (0x20::nat) \<or> c = CHR 0x7F)"
| "has_control (c # d # s) =
     (of_char c < (0x20::nat) \<or> c = CHR 0x7F
      \<or> (c = CHR 0xC2 \<and> 0x80 \<le> (of_char d :: nat) \<and> (of_char d :: nat) \<le> 0x9F)
      \<or> has_control (d # s))"

definition validateVaultPath :: "string \<Rightarrow> path_error option" where
  "validateVaultPath p =
     (if p = ''/'' then Some PathRequired
      else if has_control p then Some PathHasControl
      else if path_clean p \<noteq> p then Some (PathNotCanonical p)
      else None)"

section \<open>Normalisation\<close>

lemma rooted_normalizePath [simp]: "rooted (normalizePath p)"
  by (cases p) (auto simp: normalizePath_def hasPrefix_def)

lemma normalizePath_rooted [simp]: "rooted p \<Longrightarrow> normalizePath p = p"
  by (cases p) (auto simp: normalizePath_def hasPrefix_def)

lemma normalizePath_idem [simp]: "normalizePath (normalizePath p) = normalizePath p"
  by simp

lemma normalizePath_not_Nil [simp]: "normalizePath p \<noteq> []"
  by (simp add: normalizePath_def)

lemma canonical_clean_normalize [simp]: "canonical (path_clean (normalizePath p))"
  by (simp add: canonical_clean)

lemma canonical_rooted: "canonical p \<Longrightarrow> rooted p"
  by (simp add: canonical_def)

lemma canonical_root [simp]: "canonical ''/''"
  using canonical_render [of "[]"] by (simp add: render_def)

lemma path_clean_root [simp]: "path_clean ''/'' = ''/''"
  by (simp add: clean_canonical)

text \<open>
  The path that permissions are checked against: \<open>locate p\<close> is the list of segments of
  \<^verbatim>\<open>path.Clean(normalizePath(p))\<close>, the node of the tree that \<open>p\<close> denotes.
\<close>

definition locate :: "string \<Rightarrow> string list" where
  "locate p = abs_path (normalizePath p)"

lemma clean_normalize_eq: "path_clean (normalizePath p) = render (locate p)"
  by (simp add: locate_def path_clean_rooted)

lemma locate_good: "list_all good_seg (locate p)"
  by (simp add: locate_def abs_path_good)

lemma locate_canonical: "canonical p \<Longrightarrow> locate p = abs_path p"
  by (simp add: locate_def canonical_rooted)

section \<open>Validation\<close>

text \<open>
  \<open>validateVaultPath\<close> accepts exactly the canonical paths other than the root that
  hold no control character; for an accepted path the stored key is the very path that
  permissions are checked against.
\<close>

lemma validateVaultPath_accepts:
  "(validateVaultPath (normalizePath p) = None) =
     (canonical (normalizePath p) \<and> normalizePath p \<noteq> ''/'' \<and> \<not> has_control (normalizePath p)
      \<and> render (locate p) = normalizePath p)"
  by (auto simp: validateVaultPath_def canonical_iff_clean clean_normalize_eq)

end
