(* ===== verification/Vault_Tree.thy ===== *)
theory Vault_Tree
  imports Vault_Paths
begin

text \<open>
  The secret tree (vault.go: \<^verbatim>\<open>VaultNode\<close>, \<^verbatim>\<open>VaultTree\<close>, \<^verbatim>\<open>normalizeKeys\<close>; ui.go:
  \<^verbatim>\<open>checkPathConflict\<close> and the two functions that the update and delete handlers pass to
  \<^verbatim>\<open>UpdateVault\<close>), its invariant, and the abstract vault it implements: a partial map
  from segment lists to nodes.
\<close>

section \<open>Data\<close>

record VaultNode =
  Value :: string
  IsFolder :: bool

text \<open>\<^term>\<open>None\<close> is the nil map, which a JSON document without \<^verbatim>\<open>nodes\<close> leaves behind.\<close>

record VaultTree =
  Nodes :: "(string, VaultNode) gomap option"

definition nodes_of :: "VaultTree \<Rightarrow> (string, VaultNode) gomap" where
  "nodes_of t = (case Nodes t of None \<Rightarrow> [] | Some ns \<Rightarrow> ns)"

definition empty_tree :: VaultTree where
  "empty_tree = \<lparr>Nodes = Some []\<rparr>"

section \<open>Operations\<close>

text \<open>The loop of \<^verbatim>\<open>normalizeKeys\<close>; the order of the first list is the order of \<^verbatim>\<open>range\<close>.\<close>

fun normalize_loop ::
    "(string, VaultNode) gomap \<Rightarrow> (string, VaultNode) gomap \<Rightarrow> (string, VaultNode) gomap" where
  "normalize_loop [] normalized = normalized"
| "normalize_loop ((k, v) # rest) normalized =
     (let nk = normalizePath k
      in case map_of normalized nk of
           None \<Rightarrow> normalize_loop rest (AList.update nk v normalized)
         | Some existing \<Rightarrow>
             if \<not> IsFolder existing then normalize_loop rest (AList.update nk v normalized)
             else normalize_loop rest normalized)"

definition normalizeKeys :: "VaultTree \<Rightarrow> VaultTree" where
  "normalizeKeys t =
     (case Nodes t of
        None \<Rightarrow> t
      | Some ns \<Rightarrow> t\<lparr>Nodes := Some (normalize_loop ns [])\<rparr>)"

text \<open>The two loops of \<^verbatim>\<open>checkPathConflict\<close>: the path each of them reports, if any.\<close>

fun first_child :: "(string, VaultNode) gomap \<Rightarrow> string \<Rightarrow> string \<Rightarrow> string option" where
  "first_child [] newPath prfx = None"
| "first_child ((vaultPath, node) # rest) newPath prfx =
     (if vaultPath \<noteq> newPath \<and> hasPrefix vaultPath prfx then Some vaultPath
      else first_child rest newPath prfx)"

definition dir_prefix :: "string \<Rightarrow> string" where
  "dir_prefix p = (if p \<noteq> ''/'' then p @ ''/'' else p)"

fun first_leaf_above :: "(string, VaultNode) gomap \<Rightarrow> string \<Rightarrow> string option" where
  "first_leaf_above [] newPath = None"
| "first_leaf_above ((vaultPath, node) # rest) newPath =
     (if vaultPath = newPath then first_leaf_above rest newPath
      else if IsFolder node then first_leaf_above rest newPath
      else if hasPrefix newPath (dir_prefix vaultPath) then Some vaultPath
      else first_leaf_above rest newPath)"

definition checkPathConflict :: "VaultTree \<Rightarrow> string \<Rightarrow> bool \<Rightarrow> string" where
  "checkPathConflict tree newPath0 isFolder =
     (let newPath = normalizePath newPath0;
          under =
            (case first_leaf_above (nodes_of tree) newPath of
               Some vaultPath \<Rightarrow>
                 ''cannot create '' @ newPath @ '' under existing secret '' @ vaultPath
             | None \<Rightarrow> []);
          rest =
            (if \<not> isFolder then
               (case first_child (nodes_of tree) newPath (dir_prefix newPath) of
                  Some vaultPath \<Rightarrow>
                    ''secret '' @ newPath @ '' cannot have children because a path '' @
                    vaultPath @ '' already exists under it''
                | None \<Rightarrow> under)
             else under)
      in case map_of (nodes_of tree) newPath of
           Some existing \<Rightarrow>
             if IsFolder existing \<noteq> isFolder then
               (if IsFolder existing
                then ''path '' @ newPath @ '' already exists as a folder''
                else ''path '' @ newPath @ '' already exists as a secret'')
             else rest
         | None \<Rightarrow> rest)"

text \<open>
  The modifiers of the web handlers. \<open>updateNode\<close> returns \<open>Inl\<close> the conflict message;
  both create or tolerate a nil map as the handlers do.
\<close>

definition updateNode :: "string \<Rightarrow> bool \<Rightarrow> string \<Rightarrow> VaultTree \<Rightarrow> string + VaultTree" where
  "updateNode updatePath isFolder value tree0 =
     (let tree = (if Nodes tree0 = None then tree0\<lparr>Nodes := Some []\<rparr> else tree0);
          conflict = checkPathConflict tree updatePath isFolder
      in if conflict \<noteq> [] then Inl (''conflict: '' @ conflict)
         else Inr (tree\<lparr>Nodes :=
           Some (AList.update updatePath \<lparr>Value = value, IsFolder = isFolder\<rparr> (nodes_of tree))\<rparr>))"

definition deleteNode :: "string \<Rightarrow> VaultTree \<Rightarrow> string + VaultTree" where
  "deleteNode deletePath tree =
     Inr (case Nodes tree of
            None \<Rightarrow> tree
          | Some ns \<Rightarrow> tree\<lparr>Nodes := Some (AList.delete deletePath ns)\<rparr>)"

section \<open>Lookup\<close>

lemma nodes_of_simps [simp]:
  "nodes_of (t\<lparr>Nodes := Some ns\<rparr>) = ns"
  "nodes_of (t\<lparr>Nodes := None\<rparr>) = []"
  "nodes_of \<lparr>Nodes = Some ns\<rparr> = ns"
  "nodes_of \<lparr>Nodes = None\<rparr> = []"
  "nodes_of empty_tree = []"
  by (simp_all add: nodes_of_def empty_tree_def)

lemma nodes_of_None [simp]: "Nodes t = None \<Longrightarrow> nodes_of t = []"
  by (simp add: nodes_of_def)

lemma nodes_of_updateNode:
  "updateNode p f v t = Inr t' \<Longrightarrow>
     nodes_of t' = AList.update p \<lparr>Value = v, IsFolder = f\<rparr> (nodes_of t)"
  by (auto simp: updateNode_def Let_def split: if_splits)

lemma nodes_of_deleteNode:
  "deleteNode p t = Inr t' \<Longrightarrow> nodes_of t' = AList.delete p (nodes_of t)"
  by (auto simp: deleteNode_def nodes_of_def split: option.splits)

section \<open>Normalised keys\<close>

definition keys_rooted :: "VaultTree \<Rightarrow> bool" where
  "keys_rooted t \<longleftrightarrow> (\<forall>(k, n) \<in> set (nodes_of t). rooted k)"

lemma update_new_key: "map_of m k = None \<Longrightarrow> AList.update k v m = m @ [(k, v)]"
  by (induction m) (auto split: if_splits)

lemma normalize_loop_rooted:
  "wf_map (acc @ ns) \<Longrightarrow> (\<forall>(k, n) \<in> set ns. rooted k) \<Longrightarrow> normalize_loop ns acc = acc @ ns"
proof (induction ns acc rule: normalize_loop.induct)
  case (2 k v rest acc)
  have "map_of acc k = None"
    using "2.prems"(1) by (auto simp: wf_map_def map_of_eq_None_iff)
  with 2 show ?case
    by (auto simp: update_new_key Let_def)
qed simp

lemma normalizeKeys_rooted:
  assumes "wf_map (nodes_of t)" "keys_rooted t"
  shows "normalizeKeys t = t"
proof (cases "Nodes t")
  case (Some ns)
  then have "normalize_loop ns [] = ns"
    using assms normalize_loop_rooted [of "[]" ns] by (simp add: keys_rooted_def nodes_of_def)
  with Some show ?thesis by (cases t) (simp add: normalizeKeys_def)
qed (simp add: normalizeKeys_def)

lemma normalizeKeys_empty [simp]: "normalizeKeys empty_tree = empty_tree"
  by (simp add: normalizeKeys_def empty_tree_def)

lemma normalize_loop_keys:
  assumes "wf_map acc" and "\<forall>(k, n) \<in> set acc. rooted k"
  shows "wf_map (normalize_loop ns acc) \<and> (\<forall>(k, n) \<in> set (normalize_loop ns acc). rooted k)"
  using assms
proof (induction ns acc rule: normalize_loop.induct)
  case (2 k v rest acc)
  let ?acc = "AList.update (normalizePath k) v acc"
  have "wf_map ?acc" and "\<forall>(k, n) \<in> set ?acc. rooted k"
    using "2.prems" by (auto simp: set_update_wf split: if_splits)
  with 2 show ?case
    by (auto simp: Let_def split: option.splits)
qed simp

text \<open>No key is lost: the keys of the result are the normalised keys of the argument.\<close>

lemma normalize_loop_dom:
  "map_of (normalize_loop ns acc) p \<noteq> None \<longleftrightarrow>
     map_of acc p \<noteq> None \<or> (\<exists>k n. (k, n) \<in> set ns \<and> normalizePath k = p)"
  by (induction ns acc rule: normalize_loop.induct)
     (auto simp: Let_def map_of_update_iff split: option.splits)

lemma normalizeKeys_dom:
  "map_of (nodes_of (normalizeKeys t)) p \<noteq> None \<longleftrightarrow>
     (\<exists>k n. (k, n) \<in> set (nodes_of t) \<and> normalizePath k = p)"
proof (cases "Nodes t")
  case (Some ns)
  then have "normalizeKeys t = t\<lparr>Nodes := Some (normalize_loop ns [])\<rparr>" and "nodes_of t = ns"
    by (simp_all add: normalizeKeys_def nodes_of_def)
  then show ?thesis using normalize_loop_dom [of ns "[]" p] by simp
qed (simp add: normalizeKeys_def)

lemma normalizeKeys_keys: "wf_map (nodes_of (normalizeKeys t)) \<and> keys_rooted (normalizeKeys t)"
  using normalize_loop_keys [of "[]"]
  by (auto simp: normalizeKeys_def keys_rooted_def split: option.splits)

section \<open>Conflicts\<close>

lemma first_child_Some:
  "first_child ns p q \<noteq> None \<longleftrightarrow> (\<exists>k n. (k, n) \<in> set ns \<and> k \<noteq> p \<and> hasPrefix k q)"
  by (induction ns p q rule: first_child.induct) auto

lemma first_leaf_above_Some:
  "first_leaf_above ns p \<noteq> None \<longleftrightarrow>
     (\<exists>k n. (k, n) \<in> set ns \<and> k \<noteq> p \<and> \<not> IsFolder n \<and> hasPrefix p (dir_prefix k))"
  by (induction ns p rule: first_leaf_above.induct) auto

lemma checkPathConflict_Nil:
  assumes "rooted p"
  shows "checkPathConflict t p f = [] \<longleftrightarrow>
    (\<forall>n. map_of (nodes_of t) p = Some n \<longrightarrow> IsFolder n = f) \<and>
    (\<not> f \<longrightarrow> first_child (nodes_of t) p (dir_prefix p) = None) \<and>
    first_leaf_above (nodes_of t) p = None"
  using assms by (auto simp: checkPathConflict_def Let_def split: option.splits if_splits)

text \<open>Creating the map of an empty document does not change what conflicts.\<close>

lemma nodes_of_init: "nodes_of (if Nodes t = None then t\<lparr>Nodes := Some []\<rparr> else t) = nodes_of t"
  by simp

lemma updateNode_Inl_iff: "(\<exists>msg. updateNode p f v t = Inl msg) \<longleftrightarrow> checkPathConflict t p f \<noteq> []"
proof -
  have "checkPathConflict (if Nodes t = None then t\<lparr>Nodes := Some []\<rparr> else t) p f =
      checkPathConflict t p f"
    unfolding checkPathConflict_def nodes_of_init ..
  then show ?thesis by (simp add: updateNode_def Let_def del: if_split)
qed

section \<open>The invariant and the abstract vault\<close>

text \<open>
  Every key is canonical and is not the root, and no secret has a descendant: the keys
  form a tree whose inner nodes are folders (or have no node at all).
\<close>

definition tree_ok :: "VaultTree \<Rightarrow> bool" where
  "tree_ok t \<longleftrightarrow>
     wf_map (nodes_of t) \<and>
     (\<forall>(k, n) \<in> set (nodes_of t). canonical k \<and> k \<noteq> ''/'') \<and>
     (\<forall>(k, n) \<in> set (nodes_of t). \<not> IsFolder n \<longrightarrow> (\<forall>(l, m) \<in> set (nodes_of t). \<not> below k l))"

type_synonym avault = "string list \<Rightarrow> VaultNode option"

definition view :: "VaultTree \<Rightarrow> avault" where
  "view t ss = map_of (nodes_of t) (render ss)"

text \<open>
  The abstract operations: inserting a node conflicts when the node exists with the other
  kind, when a secret would get descendants, or when some ancestor is a secret.
\<close>

definition aconflict :: "avault \<Rightarrow> string list \<Rightarrow> bool \<Rightarrow> bool" where
  "aconflict a p f \<longleftrightarrow>
     (\<exists>n. a p = Some n \<and> IsFolder n \<noteq> f) \<or>
     (\<not> f \<and> (\<exists>q n. list_all good_seg q \<and> strict_prefix p q \<and> a q = Some n)) \<or>
     (\<exists>q n. list_all good_seg q \<and> strict_prefix q p \<and> a q = Some n \<and> \<not> IsFolder n)"

lemma tree_okD:
  assumes "tree_ok t"
  shows "wf_map (nodes_of t)"
    and "(k, n) \<in> set (nodes_of t) \<Longrightarrow> canonical k \<and> k \<noteq> ''/''"
    and "(k, n) \<in> set (nodes_of t) \<Longrightarrow> \<not> IsFolder n \<Longrightarrow> (l, m) \<in> set (nodes_of t) \<Longrightarrow> \<not> below k l"
  using assms unfolding tree_ok_def by blast+

lemma tree_ok_empty: "tree_ok empty_tree"
  by (simp add: tree_ok_def)

lemma view_abs: "canonical p \<Longrightarrow> view t (abs_path p) = map_of (nodes_of t) p"
  by (simp add: view_def canonical_def)

lemma view_mem:
  assumes "tree_ok t"
  shows "(list_all good_seg q \<and> view t q = Some n) \<longleftrightarrow>
    (\<exists>k. (k, n) \<in> set (nodes_of t) \<and> abs_path k = q)"
proof
  assume "list_all good_seg q \<and> view t q = Some n"
  then show "\<exists>k. (k, n) \<in> set (nodes_of t) \<and> abs_path k = q"
    using assms by (auto simp: view_def map_of_iff_mem tree_okD(1) abs_render)
next
  assume "\<exists>k. (k, n) \<in> set (nodes_of t) \<and> abs_path k = q"
  then obtain k where k: "(k, n) \<in> set (nodes_of t)" "abs_path k = q" by blast
  then have "canonical k"
    using assms tree_okD(2) by blast
  with k have "view t q = Some n"
    using view_abs map_of_iff_mem [OF tree_okD(1) [OF assms]] by auto
  with k(2) abs_path_good show "list_all good_seg q \<and> view t q = Some n"
    by auto
qed

lemma view_memI:
  "tree_ok t \<Longrightarrow> (k, n) \<in> set (nodes_of t) \<Longrightarrow>
     list_all good_seg (abs_path k) \<and> view t (abs_path k) = Some n"
  using view_mem by blast

lemma view_memD:
  "tree_ok t \<Longrightarrow> list_all good_seg q \<Longrightarrow> view t q = Some n \<Longrightarrow>
     \<exists>k. (k, n) \<in> set (nodes_of t) \<and> abs_path k = q"
  using view_mem by blast

lemma conflict_aconflict:
  assumes "tree_ok t" "canonical p" "p \<noteq> ''/''"
  shows "checkPathConflict t p f \<noteq> [] \<longleftrightarrow> aconflict (view t) (abs_path p) f"
proof -
  have keys: "hasPrefix k (dir_prefix p) \<longleftrightarrow> below p k" "hasPrefix p (dir_prefix k) \<longleftrightarrow> below k p"
    if "(k, n) \<in> set (nodes_of t)" for k n
    using that assms tree_okD(2) [OF assms(1)] by (auto simp: dir_prefix_def prefix_slash_below)
  have child: "first_child (nodes_of t) p (dir_prefix p) \<noteq> None \<longleftrightarrow>
      (\<exists>k n. (k, n) \<in> set (nodes_of t) \<and> below p k)"
    using keys below_irrefl unfolding first_child_Some by blast
  have leaf: "first_leaf_above (nodes_of t) p \<noteq> None \<longleftrightarrow>
      (\<exists>k n. (k, n) \<in> set (nodes_of t) \<and> \<not> IsFolder n \<and> below k p)"
    using keys below_irrefl unfolding first_leaf_above_Some by blast
  have "(\<exists>k n. (k, n) \<in> set (nodes_of t) \<and> below p k) \<longleftrightarrow>
      (\<exists>q n. list_all good_seg q \<and> strict_prefix (abs_path p) q \<and> view t q = Some n)"
    unfolding below_def using view_memI [OF assms(1)] view_memD [OF assms(1)] by blast
  moreover have "(\<exists>k n. (k, n) \<in> set (nodes_of t) \<and> \<not> IsFolder n \<and> below k p) \<longleftrightarrow>
      (\<exists>q n. list_all good_seg q \<and> strict_prefix q (abs_path p) \<and> view t q = Some n \<and> \<not> IsFolder n)"
    unfolding below_def using view_memI [OF assms(1)] view_memD [OF assms(1)] by blast
  ultimately show ?thesis
    using child leaf checkPathConflict_Nil [of p t f] assms(2)
    by (simp add: aconflict_def view_abs canonical_rooted)
qed

lemma tree_ok_insert:
  assumes t: "tree_ok t" and p: "canonical p" "p \<noteq> ''/''"
    and free: "\<not> aconflict (view t) (abs_path p) f"
    and t': "nodes_of t' = AList.update p \<lparr>Value = v, IsFolder = f\<rparr> (nodes_of t)"
  shows "tree_ok t'"
proof -
  have mem: "(k, n) \<in> set (nodes_of t') \<longleftrightarrow>
      (if k = p then n = \<lparr>Value = v, IsFolder = f\<rparr> else (k, n) \<in> set (nodes_of t))" for k n
    using t' set_update_wf [OF tree_okD(1) [OF t]] by simp
  have up: "\<not> below k p" if "(k, n) \<in> set (nodes_of t)" "\<not> IsFolder n" for k n
    using that free view_memI [OF t] unfolding aconflict_def below_def by blast
  have down: "\<not> below p k" if "(k, n) \<in> set (nodes_of t)" "\<not> f" for k n
    using that free view_memI [OF t] unfolding aconflict_def below_def by blast
  have "wf_map (nodes_of t')"
    using t' tree_okD(1) [OF t] by simp
  moreover have "canonical k \<and> k \<noteq> ''/''" if "(k, n) \<in> set (nodes_of t')" for k n
    using that mem p tree_okD(2) [OF t] by (auto split: if_splits)
  moreover have "\<not> below k l"
    if "(k, n) \<in> set (nodes_of t')" "\<not> IsFolder n" "(l, m) \<in> set (nodes_of t')" for k n l m
    using that mem up down tree_okD(3) [OF t] below_irrefl by (auto split: if_splits)
  ultimately show ?thesis unfolding tree_ok_def by blast
qed

lemma tree_ok_remove:
  assumes "tree_ok t" and "nodes_of t' = AList.delete p (nodes_of t)"
  shows "tree_ok t'"
  using assms tree_okD [OF assms(1)] unfolding tree_ok_def by (auto simp: map_facts)

lemma updateNode_keeps:
  assumes "tree_ok t" and ok: "validateVaultPath (normalizePath q) = None"
    and up: "updateNode (normalizePath q) f v t = Inr t'"
  shows "tree_ok t'"
proof -
  let ?p = "normalizePath q"
  have p: "canonical ?p" "?p \<noteq> ''/''"
    using ok by (auto simp: validateVaultPath_def canonical_iff_clean split: if_splits)
  have "checkPathConflict t ?p f = []"
    using up updateNode_Inl_iff [of ?p f v t] by auto
  then show ?thesis
    using tree_ok_insert [OF assms(1) p _ nodes_of_updateNode [OF up]] conflict_aconflict [OF assms(1) p]
    by blast
qed

lemma deleteNode_keeps: "tree_ok t \<Longrightarrow> deleteNode p t = Inr t' \<Longrightarrow> tree_ok t'"
  using tree_ok_remove nodes_of_deleteNode by blast

section \<open>Properties\<close>

text \<open>
  (C10) Refinement of the update handler's change: on a well-formed tree and a canonical
  path, \<open>checkPathConflict\<close> reports a conflict exactly when the abstract insertion
  conflicts, and otherwise the change is the abstract map update at that node alone.
\<close>

theorem updateNode_refines:
  assumes "tree_ok t" "canonical p" "p \<noteq> ''/''"
  shows "(case updateNode p f v t of
            Inl msg \<Rightarrow> aconflict (view t) (abs_path p) f
          | Inr t' \<Rightarrow> \<not> aconflict (view t) (abs_path p) f \<and>
              (\<forall>ss \<in> {ss. list_all good_seg ss}.
                 view t' ss = ((view t)(abs_path p \<mapsto> \<lparr>Value = v, IsFolder = f\<rparr>)) ss))"
proof (cases "updateNode p f v t")
  case (Inl msg)
  then have "checkPathConflict t p f \<noteq> []"
    using updateNode_Inl_iff by blast
  with Inl show ?thesis using conflict_aconflict [OF assms] by simp
next
  case (Inr t')
  then have "checkPathConflict t p f = []"
    using updateNode_Inl_iff [of p f v t] by auto
  then have "\<not> aconflict (view t) (abs_path p) f"
    using conflict_aconflict [OF assms] by blast
  moreover have "view t' ss = ((view t)(abs_path p \<mapsto> \<lparr>Value = v, IsFolder = f\<rparr>)) ss"
    if "list_all good_seg ss" for ss
  proof -
    have "render ss = p \<longleftrightarrow> ss = abs_path p"
      using that assms(2) by (metis abs_render canonical_def)
    then show ?thesis
      by (simp add: view_def nodes_of_updateNode [OF Inr] map_of_update_iff)
  qed
  ultimately show ?thesis using Inr by simp
qed

theorem updateNode_refines_witness:
  "tree_ok empty_tree \<and>
   (\<exists>t'. updateNode ''/db/pass'' False ''x'' empty_tree = Inr t' \<and>
      view t' [''db'', ''pass''] = Some \<lparr>Value = ''x'', IsFolder = False\<rparr>)"
proof -
  have can: "canonical ''/db/pass''" and ne: "''/db/pass'' \<noteq> ''/''"
    by code_simp+
  have seg: "list_all good_seg [''db'', ''pass'']" and ab: "abs_path ''/db/pass'' = [''db'', ''pass'']"
    by code_simp+
  obtain t' where t': "updateNode ''/db/pass'' False ''x'' empty_tree = Inr t'"
    by (cases "updateNode ''/db/pass'' False ''x'' empty_tree")
       (auto simp: updateNode_def checkPathConflict_def empty_tree_def nodes_of_def Let_def)
  from updateNode_refines [OF tree_ok_empty can ne, of False "''x''"] t' seg ab
  have "view t' [''db'', ''pass''] = Some \<lparr>Value = ''x'', IsFolder = False\<rparr>"
    by simp
  with t' tree_ok_empty show ?thesis by blast
qed

text \<open>
  (C21) The tree invariant (canonical keys, no secret with a descendant) is kept by every
  accepted update of a validated path and by every deletion.
\<close>

theorem tree_invariant_kept:
  assumes "tree_ok t"
  shows "(validateVaultPath (normalizePath q) = None \<longrightarrow>
            updateNode (normalizePath q) f v t = Inr t' \<longrightarrow> tree_ok t') \<and>
         (deleteNode p t = Inr t'' \<longrightarrow> tree_ok t'')"
  using assms updateNode_keeps deleteNode_keeps by blast

theorem tree_invariant_kept_witness:
  "\<exists>t'. updateNode (normalizePath ''db/pass'') False ''x'' empty_tree = Inr t' \<and> tree_ok t'"
proof -
  obtain t' where t': "updateNode (normalizePath ''db/pass'') False ''x'' empty_tree = Inr t'"
    by (cases "updateNode (normalizePath ''db/pass'') False ''x'' empty_tree")
       (auto simp: updateNode_def checkPathConflict_def empty_tree_def nodes_of_def Let_def)
  have "validateVaultPath (normalizePath ''db/pass'') = None"
    by code_simp
  with tree_invariant_kept [OF tree_ok_empty, of "''db/pass''" False "''x''" t'] t'
  show ?thesis by blast
qed

text \<open>
  \<open>normalizeKeys\<close>, which every load runs, yields a map whose keys all start with a
  slash and are distinct; it changes nothing on a map that already is of this form.
\<close>

lemma normalizeKeys_normalises:
  "wf_map (nodes_of (normalizeKeys t)) \<and> keys_rooted (normalizeKeys t) \<and>
   normalizeKeys (normalizeKeys t) = normalizeKeys t"
  using normalizeKeys_keys [of t] normalizeKeys_rooted [of "normalizeKeys t"] by blast

text \<open>
  Keys that differ only in the leading slash are merged by \<open>normalizeKeys\<close> in the
  order in which Go happens to iterate over the map: with a secret stored under both
  spellings, the value a load returns is not determined by the stored document.
\<close>

lemma normalizeKeys_order_dependent:
  "\<exists>ns ns' v v'. set ns = set ns' \<and> wf_map ns \<and> wf_map ns' \<and>
     view (normalizeKeys \<lparr>Nodes = Some ns\<rparr>) [''db'', ''pass''] = Some v \<and>
     view (normalizeKeys \<lparr>Nodes = Some ns'\<rparr>) [''db'', ''pass''] = Some v' \<and>
     Value v \<noteq> Value v'"
proof -
  let ?a = "(''db/pass'', \<lparr>Value = ''old'', IsFolder = False\<rparr>)"
  let ?b = "(''/db/pass'', \<lparr>Value = ''new'', IsFolder = False\<rparr>)"
  have "view (normalizeKeys \<lparr>Nodes = Some [?a, ?b]\<rparr>) [''db'', ''pass''] = Some (snd ?b)"
    and "view (normalizeKeys \<lparr>Nodes = Some [?b, ?a]\<rparr>) [''db'', ''pass''] = Some (snd ?a)"
    by code_simp+
  moreover have "set [?a, ?b] = set [?b, ?a]" "wf_map [?a, ?b]" "wf_map [?b, ?a]"
    by (auto simp: wf_map_def)
  moreover have "Value (snd ?b) \<noteq> Value (snd ?a)" by simp
  ultimately show ?thesis by blast
qed

end
