(* ===== verification/Go_Utf8.thy ===== *)
theory Go_Utf8
  imports Vault_Prelude
begin

text \<open>
  Go's package \<^verbatim>\<open>unicode/utf8\<close> over byte strings: how \<^verbatim>\<open>DecodeRune\<close> splits a string into
  runes (with one replacement per invalid byte) and how \<^verbatim>\<open>AppendRune\<close> encodes a rune. A
  rune is an \<open>int\<close>, as Go's \<^verbatim>\<open>int32\<close>; a byte is a \<open>char\<close>, whose bits are read directly
  so that witnesses evaluate.
\<close>

section \<open>Bytes\<close>

fun byte :: "char \<Rightarrow> int" where
  "byte (Char b0 b1 b2 b3 b4 b5 b6 b7) =
     of_bool b0 + 2 * of_bool b1 + 4 * of_bool b2 + 8 * of_bool b3 +
     16 * of_bool b4 + 32 * of_bool b5 + 64 * of_bool b6 + 128 * of_bool b7"

definition unbyte :: "int \<Rightarrow> char" where
  "unbyte n =
     Char (odd n) (odd (n div 2)) (odd (n div 4)) (odd (n div 8))
       (odd (n div 16)) (odd (n div 32)) (odd (n div 64)) (odd (n div 128))"

definition is_ascii :: "char \<Rightarrow> bool" where
  "is_ascii c = (\<not> digit7 c)"

text \<open>A continuation byte, \<^verbatim>\<open>0x80\<close> to \<^verbatim>\<open>0xBF\<close>.\<close>

definition continuation :: "char \<Rightarrow> bool" where
  "continuation c = (digit7 c \<and> \<not> digit6 c)"

definition ascii_upper :: "char \<Rightarrow> char" where
  "ascii_upper c = (let n = byte c in if 97 \<le> n \<and> n \<le> 122 then unbyte (n - 32) else c)"

lemma byte_range: "0 \<le> byte c \<and> byte c < 256"
  by (cases c) simp

lemma byte_of_char: "byte c = of_char c"
  by (cases c) simp

lemma unbyte_char_of: "unbyte n = char_of n"
  by (simp add: unbyte_def char_of_def bit_iff_odd)

lemma unbyte_byte [simp]: "unbyte (byte c) = c"
  by (simp add: byte_of_char unbyte_char_of)

lemma byte_unbyte: "0 \<le> n \<Longrightarrow> n < 256 \<Longrightarrow> byte (unbyte n) = n"
  by (simp add: byte_of_char unbyte_char_of)

section \<open>Decoding\<close>

text \<open>
  The table of accepted ranges for the second byte (Go's \<^verbatim>\<open>acceptRanges\<close>): it excludes
  overlong encodings, surrogates and values above \<^verbatim>\<open>0x10FFFF\<close>.
\<close>

definition second_ok :: "char \<Rightarrow> char \<Rightarrow> bool" where
  "second_ok c0 c1 \<longleftrightarrow>
     (let b = byte c0; lo = (if b = 0xE0 then 0xA0 else if b = 0xF0 then 0x90 else 0x80);
          hi = (if b = 0xED then 0x9F else if b = 0xF4 then 0x8F else 0xBF)
      in lo \<le> byte c1 \<and> byte c1 \<le> hi)"

text \<open>The length of the first rune, 0 if the string does not start with a valid one.\<close>

fun rune_len :: "string \<Rightarrow> nat" where
  "rune_len [] = 0"
| "rune_len (c # cs) =
     (if is_ascii c then 1
      else (let b = byte c
            in if 0xC2 \<le> b \<and> b \<le> 0xDF then
                 (case cs of c1 # _ \<Rightarrow> if second_ok c c1 then 2 else 0 | _ \<Rightarrow> 0)
               else if 0xE0 \<le> b \<and> b \<le> 0xEF then
                 (case cs of c1 # c2 # _ \<Rightarrow> if second_ok c c1 \<and> continuation c2 then 3 else 0 | _ \<Rightarrow> 0)
               else if 0xF0 \<le> b \<and> b \<le> 0xF4 then
                 (case cs of
                    c1 # c2 # c3 # _ \<Rightarrow>
                      if second_ok c c1 \<and> continuation c2 \<and> continuation c3 then 4 else 0
                  | _ \<Rightarrow> 0)
               else 0))"

text \<open>How many bytes \<^verbatim>\<open>DecodeRune\<close> consumes: one when the first is invalid.\<close>

definition rune_size :: "string \<Rightarrow> nat" where
  "rune_size s = (if rune_len s = 0 then 1 else rune_len s)"

lemma rune_size_pos [simp]: "0 < rune_size s"
  by (simp add: rune_size_def)

text \<open>The pieces that \<^verbatim>\<open>range\<close> over a string visits.\<close>

function runes :: "string \<Rightarrow> string list" where
  "runes [] = []"
| "runes (c # cs) = take (rune_size (c # cs)) (c # cs) # runes (drop (rune_size (c # cs)) (c # cs))"
  by pat_completeness auto
termination
  by (relation "measure length") auto

definition valid_utf8 :: "string \<Rightarrow> bool" where
  "valid_utf8 s = list_all (\<lambda>r. rune_len r \<noteq> 0) (runes s)"

text \<open>U+FFFD, the replacement character, and what a string becomes with invalid bytes replaced.\<close>

definition replacement :: string where
  "replacement = [CHR 0xEF, CHR 0xBF, CHR 0xBD]"

definition to_valid :: "string \<Rightarrow> string" where
  "to_valid s = concat (map (\<lambda>r. if rune_len r = 0 then replacement else r) (runes s))"

section \<open>Encoding\<close>

definition surrogate :: "int \<Rightarrow> bool" where
  "surrogate r = (0xD800 \<le> r \<and> r \<le> 0xDFFF)"

definition encode_rune :: "int \<Rightarrow> string" where
  "encode_rune r =
     (if 0 \<le> r \<and> r \<le> 0x7F then [unbyte r]
      else if 0 \<le> r \<and> r \<le> 0x7FF then [unbyte (0xC0 + r div 64), unbyte (0x80 + r mod 64)]
      else if r < 0 \<or> r > 0x10FFFF \<or> surrogate r then replacement
      else if r \<le> 0xFFFF then
        [unbyte (0xE0 + r div 4096), unbyte (0x80 + r div 64 mod 64), unbyte (0x80 + r mod 64)]
      else
        [unbyte (0xF0 + r div 262144), unbyte (0x80 + r div 4096 mod 64),
         unbyte (0x80 + r div 64 mod 64), unbyte (0x80 + r mod 64)])"

section \<open>The pieces of a string\<close>

lemma concat_runes [simp]: "concat (runes s) = s"
  by (induction s rule: runes.induct) auto

text \<open>A piece is a rune by itself, whatever follows it, or a single invalid byte.\<close>

lemma rune_len_bound: "rune_len s \<le> length s"
  by (cases s rule: rune_len.cases) (auto simp: Let_def split: list.splits)

lemma rune_len_piece:
  "rune_len s \<noteq> 0 \<Longrightarrow> rune_len (take (rune_len s) s @ t) = rune_len s"
  by (cases s rule: rune_len.cases)
    (auto simp: Let_def split: list.splits if_splits)

lemma rune_len_single: "rune_len [c] = (if is_ascii c then 1 else 0)"
  by (simp add: Let_def)

lemma rune_len_ascii [simp]: "is_ascii c \<Longrightarrow> rune_len (c # cs) = 1"
  by simp

lemma rune_len_invalid: "rune_len (c # cs) = 0 \<Longrightarrow> \<not> is_ascii c"
  by auto

lemma rune_len_one: "rune_len (c # cs) = 1 \<longleftrightarrow> is_ascii c"
  by (auto simp: Let_def split: list.splits)

declare rune_len.simps(2) [simp del]

lemma runes_cases:
  assumes "r \<in> set (runes s)"
  shows "(rune_len r = length r \<and> r \<noteq> [] \<and> (\<forall>t. rune_len (r @ t) = length r)) \<or>
         (rune_len r = 0 \<and> (\<exists>c. r = [c] \<and> \<not> is_ascii c))"
  using assms
proof (induction s rule: runes.induct)
  case (2 c cs)
  let ?s = "c # cs"
  show ?case
  proof (cases "r = take (rune_size ?s) ?s")
    case True
    show ?thesis
    proof (cases "rune_len ?s = 0")
      case z: True
      then have "r = [c]" using True by (simp add: rune_size_def)
      moreover have "\<not> is_ascii c" using z rune_len_invalid by simp
      ultimately show ?thesis by (simp add: rune_len_single)
    next
      case False
      then have r: "r = take (rune_len ?s) ?s" using True by (simp add: rune_size_def)
      then have len: "length r = rune_len ?s" using rune_len_bound [of ?s] by simp
      have "rune_len (r @ t) = length r" for t
        using rune_len_piece [OF False, of t] r len by simp
      from this [of "[]"] this len False show ?thesis by auto
    qed
  next
    case False
    then show ?thesis using 2 by simp
  qed
qed simp

lemma valid_utf8_iff: "valid_utf8 s \<longleftrightarrow> (\<forall>r \<in> set (runes s). rune_len r \<noteq> 0)"
  by (simp add: valid_utf8_def list_all_iff)

lemma to_valid_id: "valid_utf8 s \<Longrightarrow> to_valid s = s"
proof -
  assume "valid_utf8 s"
  then have "map (\<lambda>r. if rune_len r = 0 then replacement else r) (runes s) = runes s"
    unfolding valid_utf8_iff by (intro map_idI) auto
  then show ?thesis by (simp add: to_valid_def)
qed

lemma runes_piece:
  assumes "rune_len r = length r" "r \<noteq> []" "\<And>t. rune_len (r @ t) = length r"
  shows "runes (r @ t) = r # runes t"
proof -
  obtain c cs where r: "r = c # cs" using assms(2) by (cases r) auto
  have "rune_size (r @ t) = length r"
    using assms by (simp add: rune_size_def)
  then show ?thesis using r by simp
qed

section \<open>Whole runes\<close>

text \<open>A string that is one valid rune whatever follows it; what the encoder makes is one.\<close>

definition whole_rune :: "string \<Rightarrow> bool" where
  "whole_rune r \<longleftrightarrow> r \<noteq> [] \<and> (\<forall>t. rune_len (r @ t) = length r)"

lemma valid_utf8_Nil [simp]: "valid_utf8 []"
  by (simp add: valid_utf8_def)

lemma valid_utf8_rune:
  assumes "whole_rune r"
  shows "valid_utf8 (r @ t) \<longleftrightarrow> valid_utf8 t"
proof -
  have "rune_len r = length r" "r \<noteq> []"
    using assms unfolding whole_rune_def by (metis append_Nil2)+
  then show ?thesis
    using runes_piece [of r t] assms by (simp add: whole_rune_def valid_utf8_def)
qed

lemma whole_ascii: "is_ascii c \<Longrightarrow> whole_rune [c]"
  by (simp add: whole_rune_def)

lemma whole_take: "rune_len s \<noteq> 0 \<Longrightarrow> whole_rune (take (rune_len s) s)"
  using rune_len_piece [of s] rune_len_bound [of s] by (auto simp: whole_rune_def)

lemma digit7_byte: "digit7 c \<longleftrightarrow> 128 \<le> byte c"
  by (cases c) auto

lemma continuation_byte: "continuation c \<longleftrightarrow> 128 \<le> byte c \<and> byte c < 192"
  by (cases c) (auto simp: continuation_def)

lemma whole_replacement: "whole_rune replacement"
  by (simp add: whole_rune_def replacement_def rune_len.simps is_ascii_def second_ok_def continuation_def)

lemma whole_2: "194 \<le> byte a \<Longrightarrow> byte a \<le> 223 \<Longrightarrow> second_ok a b \<Longrightarrow> whole_rune [a, b]"
  by (simp add: whole_rune_def rune_len.simps is_ascii_def digit7_byte Let_def)

lemma whole_3: "224 \<le> byte a \<Longrightarrow> byte a \<le> 239 \<Longrightarrow> second_ok a b \<Longrightarrow> continuation c \<Longrightarrow> whole_rune [a, b, c]"
  by (simp add: whole_rune_def rune_len.simps is_ascii_def digit7_byte Let_def)

lemma whole_4:
  "240 \<le> byte a \<Longrightarrow> byte a \<le> 244 \<Longrightarrow> second_ok a b \<Longrightarrow> continuation c \<Longrightarrow> continuation d \<Longrightarrow>
    whole_rune [a, b, c, d]"
  by (simp add: whole_rune_def rune_len.simps is_ascii_def digit7_byte Let_def)

lemma continuation_unbyte: "0 \<le> n \<Longrightarrow> n \<le> 63 \<Longrightarrow> continuation (unbyte (128 + n))"
  by (simp add: continuation_byte byte_unbyte)

lemma encoded_3:
  assumes "0 \<le> q" "q \<le> 15" "0 \<le> y" "y \<le> 63" "0 \<le> z" "z \<le> 63"
    and "q = 0 \<Longrightarrow> 32 \<le> y" "q = 13 \<Longrightarrow> y \<le> 31"
  shows "whole_rune [unbyte (224 + q), unbyte (128 + y), unbyte (128 + z)]"
proof (rule whole_3)
  have byte: "byte (unbyte (224 + q)) = 224 + q" "byte (unbyte (128 + y)) = 128 + y"
    using assms by (simp_all add: byte_unbyte)
  then show "224 \<le> byte (unbyte (224 + q))" "byte (unbyte (224 + q)) \<le> 239"
    using assms by simp_all
  show "second_ok (unbyte (224 + q)) (unbyte (128 + y))"
    unfolding second_ok_def Let_def byte using assms by auto
qed (use assms in \<open>simp add: continuation_unbyte\<close>)

lemma encoded_4:
  assumes "0 \<le> q" "q \<le> 4" "0 \<le> y" "y \<le> 63" "0 \<le> z" "z \<le> 63" "0 \<le> w" "w \<le> 63"
    and "q = 0 \<Longrightarrow> 16 \<le> y" "q = 4 \<Longrightarrow> y \<le> 15"
  shows "whole_rune [unbyte (240 + q), unbyte (128 + y), unbyte (128 + z), unbyte (128 + w)]"
proof (rule whole_4)
  have byte: "byte (unbyte (240 + q)) = 240 + q" "byte (unbyte (128 + y)) = 128 + y"
    using assms by (simp_all add: byte_unbyte)
  then show "240 \<le> byte (unbyte (240 + q))" "byte (unbyte (240 + q)) \<le> 244"
    using assms by simp_all
  show "second_ok (unbyte (240 + q)) (unbyte (128 + y))"
    unfolding second_ok_def Let_def byte using assms by auto
qed (use assms in \<open>simp_all add: continuation_unbyte\<close>)

lemma digit_bounds:
  fixes x k :: int
  assumes "0 < k" "0 \<le> x" "x < (m + 1) * k"
  shows "0 \<le> x div k" "x div k \<le> m"
proof -
  show "0 \<le> x div k" using assms by (simp add: pos_imp_zdiv_nonneg_iff)
  have "x div k < m + 1"
  proof (rule ccontr)
    assume "\<not> x div k < m + 1"
    then have "(m + 1) * k \<le> (x div k) * k" using assms(1) by (intro mult_right_mono) auto
    also have "\<dots> \<le> x" using assms(1) div_mult_mod_eq [of x k] pos_mod_sign [of k x] by linarith
    finally show False using assms(3) by simp
  qed
  then show "x div k \<le> m" by simp
qed

lemma second_digit:
  fixes q x k :: int
  assumes "0 < k" "0 \<le> x" "x < 64 * k"
  shows "(x + (64 * q) * k) div k mod 64 = x div k"
proof -
  have "(x + (64 * q) * k) div k = 64 * q + x div k"
    using assms(1) by (simp only: div_mult_self1 order_less_imp_not_eq2 not_False_eq_True)
  then show ?thesis
    using digit_bounds [of k x 63] assms by simp
qed

lemma whole_encoded: "whole_rune (encode_rune r)"
proof -
  consider "0 \<le> r" "r \<le> 0x7F" | "0x80 \<le> r" "r \<le> 0x7FF" | "r < 0 \<or> r > 0x10FFFF \<or> surrogate r"
    | "0x800 \<le> r" "r \<le> 0xFFFF" "\<not> surrogate r" | "0x10000 \<le> r" "r \<le> 0x10FFFF"
    by linarith
  then show ?thesis
  proof cases
    case 1
    then have "is_ascii (unbyte r)" by (simp add: is_ascii_def digit7_byte byte_unbyte)
    with 1 show ?thesis by (simp add: encode_rune_def whole_ascii)
  next
    case 2
    then have d: "2 \<le> r div 64" "r div 64 \<le> 31" "0 \<le> r mod 64" "r mod 64 \<le> 63" by auto
    have "whole_rune [unbyte (192 + r div 64), unbyte (128 + r mod 64)]"
      by (rule whole_2) (use d in \<open>simp_all add: byte_unbyte second_ok_def Let_def\<close>)
    with 2 show ?thesis by (simp add: encode_rune_def)
  next
    case 3
    then have "encode_rune r = replacement" by (auto simp: encode_rune_def surrogate_def)
    then show ?thesis by (simp add: whole_replacement)
  next
    case 4
    define q x where "q = r div 4096" and "x = r mod 4096"
    have r: "r = 4096 * q + x" "0 \<le> x" "x < 4096" by (simp_all add: q_def x_def)
    have m: "r div 64 mod 64 = x div 64"
      using second_digit [of 64 x q] r by (simp add: add.commute)
    have "0 \<le> q" "q \<le> 15" using 4(1,2) r by linarith+
    moreover have "0 \<le> x div 64" "x div 64 \<le> 63" using digit_bounds [of 64 x 63] r(2,3) by simp_all
    moreover have "0 \<le> r mod 64" "r mod 64 \<le> 63" using pos_mod_bound [of 64 r] by simp_all
    ultimately have b: "0 \<le> q" "q \<le> 15" "0 \<le> x div 64" "x div 64 \<le> 63" "0 \<le> r mod 64" "r mod 64 \<le> 63"
      by blast+
    have lo: "32 \<le> x div 64" if "q = 0"
    proof -
      have "2048 \<le> x" using that r(1) 4(1) by simp
      then show ?thesis using zdiv_mono1 [of 2048 x 64] by simp
    qed
    have hi: "x div 64 \<le> 31" if "q = 13"
    proof -
      have "x < 2048" using that r(1,3) 4(3) unfolding surrogate_def by linarith
      then show ?thesis using digit_bounds [of 64 x 31] r(2) by simp
    qed
    have "whole_rune [unbyte (224 + q), unbyte (128 + x div 64), unbyte (128 + r mod 64)]"
      by (rule encoded_3) (fact b lo hi)+
    with 4 show ?thesis by (simp add: encode_rune_def m q_def)
  next
    case 5
    define q x where "q = r div 262144" and "x = r mod 262144"
    have r: "r = 262144 * q + x" "0 \<le> x" "x < 262144" by (simp_all add: q_def x_def)
    have m: "r div 4096 mod 64 = x div 4096"
      using second_digit [of 4096 x q] r by (simp add: add.commute)
    have "0 \<le> q" "q \<le> 4" using 5(1,2) r by linarith+
    moreover have "0 \<le> x div 4096" "x div 4096 \<le> 63" using digit_bounds [of 4096 x 63] r(2,3) by simp_all
    moreover have "0 \<le> r mod 64" "r mod 64 \<le> 63" "0 \<le> r div 64 mod 64" "r div 64 mod 64 \<le> 63"
      using pos_mod_bound [of 64 r] pos_mod_bound [of 64 "r div 64"] by simp_all
    ultimately have b: "0 \<le> q" "q \<le> 4" "0 \<le> x div 4096" "x div 4096 \<le> 63" "0 \<le> r div 64 mod 64"
      "r div 64 mod 64 \<le> 63" "0 \<le> r mod 64" "r mod 64 \<le> 63"
      by blast+
    have lo: "16 \<le> x div 4096" if "q = 0"
    proof -
      have "65536 \<le> x" using that r(1) 5(1) by simp
      then show ?thesis using zdiv_mono1 [of 65536 x 4096] by simp
    qed
    have hi: "x div 4096 \<le> 15" if "q = 4"
    proof -
      have "x < 65536" using that r(1) 5(2) by linarith
      then show ?thesis using digit_bounds [of 4096 x 15] r(2) by simp
    qed
    have "whole_rune [unbyte (240 + q), unbyte (128 + x div 4096), unbyte (128 + r div 64 mod 64), unbyte (128 + r mod 64)]"
      by (rule encoded_4) (fact b lo hi)+
    moreover have "\<not> surrogate r" using 5 by (simp add: surrogate_def)
    ultimately show ?thesis using 5 by (simp add: encode_rune_def m q_def)
  qed
qed

end
