(* ===== verification/Go_Json.thy ===== *)
theory Go_Json
  imports Go_Utf8 Go_Strings
begin

text \<open>
  Go's package \<^verbatim>\<open>encoding/json\<close>, as far as the program uses it: the parser from bytes to
  JSON values with its string escapes, UTF-8 repair and nesting limit, and the printer
  with its HTML-safe escapes. The conversion between JSON values and the program's types,
  which \<^verbatim>\<open>Marshal\<close> and \<^verbatim>\<open>Unmarshal\<close> derive from the struct tags, is in Vault_Json.
\<close>

section \<open>Values\<close>

text \<open>
  A Go \<^verbatim>\<open>any\<close> as the JSON decoder fills it, or a \<^verbatim>\<open>[]string\<close>. A number is its text. The
  members of an object are listed as they were written, so a key may occur twice.
\<close>

datatype jval =
    JNull
  | JBool bool
  | JNumber string
  | JString string
  | JArray "jval list"
  | JObject "(string \<times> jval) list"
  | GoStrings "string list"

abbreviation quote :: char where
  "quote \<equiv> CHR 0x22"

abbreviation backslash :: char where
  "backslash \<equiv> CHR 0x5C"

section \<open>Parsing\<close>

definition json_space :: "char \<Rightarrow> bool" where
  "json_space c \<longleftrightarrow> c = CHR '' '' \<or> c = CHR 0x09 \<or> c = CHR 0x0A \<or> c = CHR 0x0D"

definition skip_space :: "string \<Rightarrow> string" where
  "skip_space s = dropWhile json_space s"

definition hex_value :: "char \<Rightarrow> int option" where
  "hex_value c =
     (let b = byte c
      in if 48 \<le> b \<and> b \<le> 57 then Some (b - 48)
         else if 97 \<le> b \<and> b \<le> 102 then Some (b - 87)
         else if 65 \<le> b \<and> b \<le> 70 then Some (b - 55)
         else None)"

text \<open>The four digits after \<^verbatim>\<open>\u\<close>: the code unit and the rest.\<close>

fun getu4 :: "string \<Rightarrow> (int \<times> string) option" where
  "getu4 (a # b # c # d # rest) =
     (case (hex_value a, hex_value b, hex_value c, hex_value d) of
        (Some i, Some j, Some k, Some l) \<Rightarrow> Some (4096 * i + 256 * j + 16 * k + l, rest)
      | _ \<Rightarrow> None)"
| "getu4 s = None"

text \<open>
  The rune that a code unit stands for, given what follows it: a high surrogate takes a
  low surrogate that is escaped right after it, any other surrogate is replaced.
\<close>

fun escaped_unit :: "int \<Rightarrow> string \<Rightarrow> string \<times> string" where
  "escaped_unit r (x # y # rest) =
     (if surrogate r then
        (case (if x = backslash \<and> y = CHR ''u'' then getu4 rest else None) of
           None \<Rightarrow> (replacement, x # y # rest)
         | Some (r2, rest2) \<Rightarrow>
             if r < 0xDC00 \<and> 0xDC00 \<le> r2 \<and> r2 \<le> 0xDFFF
             then (encode_rune (0x10000 + 1024 * (r - 0xD800) + (r2 - 0xDC00)), rest2)
             else (replacement, x # y # rest))
      else (encode_rune r, x # y # rest))"
| "escaped_unit r rest = (encode_rune r, rest)"

fun escape_char :: "string \<Rightarrow> (string \<times> string) option" where
  "escape_char [] = None"
| "escape_char (e # rest) =
     (if e = quote \<or> e = backslash \<or> e = CHR ''/'' then Some ([e], rest)
      else if e = CHR ''b'' then Some ([CHR 0x08], rest)
      else if e = CHR ''f'' then Some ([CHR 0x0C], rest)
      else if e = CHR ''n'' then Some ([CHR 0x0A], rest)
      else if e = CHR ''r'' then Some ([CHR 0x0D], rest)
      else if e = CHR ''t'' then Some ([CHR 0x09], rest)
      else if e = CHR ''u'' then map_option (\<lambda>(r, rest). escaped_unit r rest) (getu4 rest)
      else None)"

definition is_control :: "char \<Rightarrow> bool" where
  "is_control c = (\<not> digit5 c \<and> \<not> digit6 c \<and> \<not> digit7 c)"

text \<open>One character of a string literal: the bytes it stands for and the rest.\<close>

definition literal_char :: "char \<Rightarrow> string \<Rightarrow> (string \<times> string) option" where
  "literal_char c rest =
     (if c = backslash then escape_char rest
      else if is_control c then None
      else if is_ascii c then Some ([c], rest)
      else (let n = rune_len (c # rest)
            in if n = 0 then Some (replacement, rest)
               else Some (take n (c # rest), drop n (c # rest))))"

lemma getu4_shorter: "getu4 s = Some (r, rest) \<Longrightarrow> length rest < length s"
  by (cases s rule: getu4.cases) (auto split: option.splits)

lemma escaped_unit_shorter: "length (snd (escaped_unit r s)) \<le> length s"
proof (cases s rule: remdups_adj.cases)
  case (3 x y rest)
  then show ?thesis
    by (auto split: option.splits dest: getu4_shorter)
qed simp_all

lemma escape_char_shorter: "escape_char s = Some (out, rest) \<Longrightarrow> length rest < length s"
proof (cases s)
  case (Cons e t)
  assume "escape_char s = Some (out, rest)"
  then consider "rest = t" | r t1 where "getu4 t = Some (r, t1)" "(out, rest) = escaped_unit r t1"
    unfolding Cons escape_char.simps by (auto split: if_splits)
  then show ?thesis
  proof cases
    case 2
    then have "length rest \<le> length t1" using escaped_unit_shorter [of r t1] by (metis snd_conv)
    then show ?thesis using getu4_shorter [OF 2(1)] Cons by simp
  qed (simp add: Cons)
qed simp

lemma literal_char_shorter:
  assumes "literal_char c s = Some (out, rest)"
  shows "length rest \<le> length s"
proof (cases "c = backslash")
  case True
  then show ?thesis using assms escape_char_shorter [of s out rest] by (auto simp: literal_char_def)
next
  case False
  then show ?thesis
    using assms by (auto simp: literal_char_def Let_def drop_Cons' split: if_splits)
qed

text \<open>A string literal after its opening quote, up to the closing one.\<close>

function parse_string :: "string \<Rightarrow> (string \<times> string) option" where
  "parse_string [] = None"
| "parse_string (c # cs) =
     (if c = quote then Some ([], cs)
      else (case literal_char c cs of
              None \<Rightarrow> None
            | Some (out, rest) \<Rightarrow>
                (case parse_string rest of
                   None \<Rightarrow> None
                 | Some (s, r) \<Rightarrow> Some (out @ s, r))))"
  by pat_completeness auto
termination
  by (relation "measure length") (auto dest: literal_char_shorter)

lemma parse_string_shorter: "parse_string s = Some (v, r) \<Longrightarrow> length r < length s"
proof (induction s arbitrary: v r rule: parse_string.induct)
  case (2 c cs)
  show ?case
  proof (cases "c = quote")
    case False
    then obtain out rest s where l: "literal_char c cs = Some (out, rest)" "parse_string rest = Some (s, r)"
      using "2.prems" by (auto split: option.splits)
    then show ?thesis using "2.IH" [OF False l(1) refl l(2)] literal_char_shorter [OF l(1)] by simp
  qed (use "2.prems" in simp)
qed simp

text \<open>Numbers, by the grammar of the scanner: the text and the rest.\<close>

definition is_digit :: "char \<Rightarrow> bool" where
  "is_digit c = (c \<in> set ''0123456789'')"

definition digits :: "string \<Rightarrow> (string \<times> string) option" where
  "digits s = (if takeWhile is_digit s = [] then None else Some (takeWhile is_digit s, dropWhile is_digit s))"

fun number_int :: "string \<Rightarrow> (string \<times> string) option" where
  "number_int [] = None"
| "number_int (c # s) = (if c = CHR ''0'' then Some ([c], s) else digits (c # s))"

fun number_frac :: "string \<Rightarrow> (string \<times> string) option" where
  "number_frac [] = Some ([], [])"
| "number_frac (c # s) =
     (if c = CHR ''.'' then map_option (\<lambda>(d, r). (c # d, r)) (digits s) else Some ([], c # s))"

fun number_sign :: "string \<Rightarrow> string \<times> string" where
  "number_sign [] = ([], [])"
| "number_sign (c # s) = (if c = CHR ''+'' \<or> c = CHR ''-'' then ([c], s) else ([], c # s))"

fun number_exp :: "string \<Rightarrow> (string \<times> string) option" where
  "number_exp [] = Some ([], [])"
| "number_exp (c # s) =
     (if c = CHR ''e'' \<or> c = CHR ''E'' then
        (case number_sign s of (sg, t) \<Rightarrow> map_option (\<lambda>(d, r). (c # sg @ d, r)) (digits t))
      else Some ([], c # s))"

fun number_minus :: "string \<Rightarrow> string \<times> string" where
  "number_minus [] = ([], [])"
| "number_minus (c # s) = (if c = CHR ''-'' then ([c], s) else ([], c # s))"

definition parse_number :: "string \<Rightarrow> (string \<times> string) option" where
  "parse_number s =
     (let (m, s0) = number_minus s
      in case number_int s0 of
           None \<Rightarrow> None
         | Some (i, s1) \<Rightarrow>
             (case number_frac s1 of
                None \<Rightarrow> None
              | Some (f, s2) \<Rightarrow>
                  (case number_exp s2 of
                     None \<Rightarrow> None
                   | Some (e, s3) \<Rightarrow> Some (m @ i @ f @ e, s3))))"

lemma digits_shorter: "digits s = Some (d, r) \<Longrightarrow> length r < length s"
  by (cases s) (auto simp: digits_def le_imp_less_Suc length_dropWhile_le split: if_splits)

lemma parse_number_shorter:
  assumes "parse_number s = Some (v, r)"
  shows "length r < length s"
proof -
  have int: "number_int t = Some (i, u) \<Longrightarrow> length u < length t" for t i u
    by (cases t rule: number_int.cases) (auto dest: digits_shorter split: if_splits)
  have frac: "number_frac t = Some (i, u) \<Longrightarrow> length u \<le> length t" for t i u
    by (cases t rule: number_frac.cases) (auto dest!: digits_shorter split: if_splits)
  have sign: "number_sign t = (i, u) \<Longrightarrow> length u \<le> length t" for t i u
    by (cases t rule: number_sign.cases) (auto split: if_splits)
  have exp: "number_exp t = Some (i, u) \<Longrightarrow> length u \<le> length t" for t i u
    by (cases t rule: number_exp.cases)
      (auto dest!: digits_shorter sign split: if_splits prod.splits)
  obtain m s0 where m: "number_minus s = (m, s0)" by fastforce
  then have "length s0 \<le> length s"
    by (cases s rule: number_minus.cases) (auto split: if_splits)
  moreover obtain i s1 f s2 e where s: "number_int s0 = Some (i, s1)" "number_frac s1 = Some (f, s2)"
    "number_exp s2 = Some (e, r)"
    using assms m by (auto simp: parse_number_def split: option.splits)
  ultimately show ?thesis using int [OF s(1)] frac [OF s(2)] exp [OF s(3)] by simp
qed

text \<open>
  Values. \<open>d\<close> counts the open arrays and objects, which the scanner bounds; \<open>n\<close> is fuel:
  each call for a part takes a shorter input, so the length of the input is enough
  (\<open>parse_fuel\<close>).
\<close>

definition max_nesting :: int where
  "max_nesting = 10000"

fun parse_value :: "nat \<Rightarrow> int \<Rightarrow> string \<Rightarrow> (jval \<times> string) option"
  and parse_members :: "nat \<Rightarrow> int \<Rightarrow> string \<Rightarrow> ((string \<times> jval) list \<times> string) option"
  and parse_elements :: "nat \<Rightarrow> int \<Rightarrow> string \<Rightarrow> (jval list \<times> string) option" where
  "parse_value 0 d s = None"
| "parse_value (Suc n) d s =
     (case skip_space s of
        [] \<Rightarrow> None
      | c # cs \<Rightarrow>
          if c = CHR ''{'' then
            (if max_nesting \<le> d then None
             else (case skip_space cs of
                     [] \<Rightarrow> None
                   | c1 # r \<Rightarrow>
                       if c1 = CHR ''}'' then Some (JObject [], r)
                       else map_option (\<lambda>(ms, r). (JObject ms, r)) (parse_members n (d + 1) (c1 # r))))
          else if c = CHR ''['' then
            (if max_nesting \<le> d then None
             else (case skip_space cs of
                     [] \<Rightarrow> None
                   | c1 # r \<Rightarrow>
                       if c1 = CHR '']'' then Some (JArray [], r)
                       else map_option (\<lambda>(vs, r). (JArray vs, r)) (parse_elements n (d + 1) (c1 # r))))
          else if c = quote then map_option (\<lambda>(s, r). (JString s, r)) (parse_string cs)
          else if c = CHR ''t'' then
            (if hasPrefix cs ''rue'' then Some (JBool True, drop 3 cs) else None)
          else if c = CHR ''f'' then
            (if hasPrefix cs ''alse'' then Some (JBool False, drop 4 cs) else None)
          else if c = CHR ''n'' then
            (if hasPrefix cs ''ull'' then Some (JNull, drop 3 cs) else None)
          else map_option (\<lambda>(t, r). (JNumber t, r)) (parse_number (c # cs)))"
| "parse_members 0 d s = None"
| "parse_members (Suc n) d s =
     (case skip_space s of
        [] \<Rightarrow> None
      | c # cs \<Rightarrow>
          if c \<noteq> quote then None
          else (case parse_string cs of
                  None \<Rightarrow> None
                | Some (k, r) \<Rightarrow>
                    (case skip_space r of
                       [] \<Rightarrow> None
                     | c1 # r1 \<Rightarrow>
                         if c1 \<noteq> CHR '':'' then None
                         else (case parse_value n d r1 of
                                 None \<Rightarrow> None
                               | Some (v, r2) \<Rightarrow>
                                   (case skip_space r2 of
                                      [] \<Rightarrow> None
                                    | c2 # r3 \<Rightarrow>
                                        if c2 = CHR ''}'' then Some ([(k, v)], r3)
                                        else if c2 = CHR '','' then
                                          map_option (\<lambda>(ms, r). ((k, v) # ms, r)) (parse_members n d r3)
                                        else None)))))"
| "parse_elements 0 d s = None"
| "parse_elements (Suc n) d s =
     (case parse_value n d s of
        None \<Rightarrow> None
      | Some (v, r) \<Rightarrow>
          (case skip_space r of
             [] \<Rightarrow> None
           | c # r1 \<Rightarrow>
               if c = CHR '']'' then Some ([v], r1)
               else if c = CHR '','' then
                 map_option (\<lambda>(vs, r). (v # vs, r)) (parse_elements n d r1)
               else None))"

text \<open>A whole document: one value and nothing but white space after it.\<close>

definition parse_json :: "bytes \<Rightarrow> jval option" where
  "parse_json s =
     (case parse_value (2 * length s + 1) 0 s of
        None \<Rightarrow> None
      | Some (v, r) \<Rightarrow> if skip_space r = [] then Some v else None)"

section \<open>The fuel is enough\<close>

lemma skip_space_shorter: "length (skip_space s) \<le> length s"
  by (simp add: skip_space_def length_dropWhile_le)

lemma skip_space_Cons: "skip_space s = c # cs \<Longrightarrow> length cs < length s"
  using skip_space_shorter [of s] by simp

lemma parse_shorter:
  "parse_value n d s = Some (v, r) \<Longrightarrow> length r < length s"
  "parse_members n d s = Some (ms, r) \<Longrightarrow> length r < length s"
  "parse_elements n d s = Some (vs, r) \<Longrightarrow> length r < length s"
proof (induction n arbitrary: d s v r ms vs)
  case (Suc n)
  note IH = Suc.IH
  {
    case 1
    then obtain c cs where s: "skip_space s = c # cs" by (auto split: list.splits)
    note len = skip_space_Cons [OF s]
    have inner: "length r < length s"
      if "skip_space cs = c1 # t" "parse_members n d' (c1 # t) = Some (ms, r) \<or> parse_elements n d' (c1 # t) = Some (vs, r)"
      for c1 t d' ms vs
      using that len skip_space_shorter [of cs] by (auto dest!: IH(2,3))
    show ?case
      using 1 s len
      by (auto split: list.splits if_splits dest!: parse_string_shorter parse_number_shorter
          dest: skip_space_Cons intro: inner)
  next
    case 2
    then show ?case
      by (auto split: list.splits option.splits if_splits
          dest!: parse_string_shorter skip_space_Cons IH(1,2))
  next
    case 3
    then show ?case
      by (auto split: list.splits option.splits if_splits dest!: skip_space_Cons IH(1,3))
  }
qed simp_all

declare parse_value.simps(2) [simp del] parse_members.simps(2) [simp del] parse_elements.simps(2) [simp del]

text \<open>Arrays consume a step of fuel before their first value, hence the factor two.\<close>

lemma parse_fuel_step:
  "2 * length s < n \<Longrightarrow> parse_value n d s = parse_value (Suc n) d s"
  "2 * length s < n \<Longrightarrow> parse_members n d s = parse_members (Suc n) d s"
  "Suc (2 * length s) < n \<Longrightarrow> parse_elements n d s = parse_elements (Suc n) d s"
proof (induction n arbitrary: d s)
  case (Suc n)
  note IH = Suc.IH
  {
    case 1
    show ?case
    proof (cases "skip_space s")
      case (Cons c cs)
      have "2 * length t < n" "Suc (2 * length t) < n" if "skip_space cs = t" for t
        using 1 skip_space_Cons [OF Cons] skip_space_shorter [of cs] that by auto
      then have "parse_members n d' t = parse_members (Suc n) d' t"
        "parse_elements n d' t = parse_elements (Suc n) d' t" if "skip_space cs = t" for d' t
        using IH(2,3) that by blast+
      then show ?thesis
        unfolding parse_value.simps(2) [of n] parse_value.simps(2) [of "Suc n"]
        by (simp add: Cons split: list.split cong: if_cong)
    qed (simp add: parse_value.simps(2))
  next
    case 2
    have v: "parse_value n d t = parse_value (Suc n) d t" "parse_members n d t = parse_members (Suc n) d t"
      if "length t < length s" for t d
      using IH(1,2) [of t] 2 that by auto
    show ?case
    proof (cases "skip_space s")
      case (Cons c cs)
      show ?thesis
      proof (cases "parse_string cs")
        case str: (Some kr)
        obtain k r where kr: "parse_string cs = Some (k, r)" using str by (cases kr) auto
        show ?thesis
        proof (cases "skip_space r")
          case r: (Cons c1 r1)
          have l1: "length r1 < length s"
            using skip_space_Cons [OF Cons] parse_string_shorter [OF kr] skip_space_Cons [OF r] by simp
          then have "parse_members n d r3 = parse_members (Suc n) d r3"
            if "parse_value (Suc n) d r1 = Some (x, r2)" "skip_space r2 = c2 # r3" for x r2 c2 r3
            using parse_shorter(1) [OF that(1)] skip_space_Cons [OF that(2)] v(2) [of r3] by simp
          then show ?thesis
            unfolding parse_members.simps(2) [of n] parse_members.simps(2) [of "Suc n"]
            by (simp add: Cons kr r v(1) [OF l1] split: list.split option.split cong: if_cong)
        qed (simp add: Cons kr parse_members.simps(2))
      qed (simp add: Cons parse_members.simps(2))
    qed (simp add: parse_members.simps(2))
  next
    case 3
    have v: "parse_value n d s = parse_value (Suc n) d s" using IH(1) [of s] 3 by simp
    have "parse_elements n d r1 = parse_elements (Suc n) d r1"
      if "parse_value (Suc n) d s = Some (x, r)" "skip_space r = c # r1" for x r c r1
      using parse_shorter(1) [OF that(1)] skip_space_Cons [OF that(2)] IH(3) [of r1] 3 by simp
    then show ?case
      unfolding parse_elements.simps(2) [of n] parse_elements.simps(2) [of "Suc n"]
      by (simp add: v split: list.split option.split cong: if_cong)
  }
qed simp_all

lemma parse_fuel: "2 * length s < n \<Longrightarrow> n \<le> m \<Longrightarrow> parse_value m d s = parse_value n d s"
proof (induction m)
  case (Suc m)
  then show ?case
    using parse_fuel_step(1) [of s m d] by (cases "n = Suc m") auto
qed simp

section \<open>Printing\<close>

definition hex_char :: "int \<Rightarrow> char" where
  "hex_char n = unbyte (if n < 10 then 48 + n else 87 + n)"

text \<open>ASCII characters: control characters, quote, backslash and those special in HTML are escaped.\<close>

definition short_escape :: "char \<Rightarrow> char option" where
  "short_escape c =
     (if c = quote \<or> c = backslash then Some c
      else if c = CHR 0x08 then Some (CHR ''b'')
      else if c = CHR 0x0C then Some (CHR ''f'')
      else if c = CHR 0x0A then Some (CHR ''n'')
      else if c = CHR 0x0D then Some (CHR ''r'')
      else if c = CHR 0x09 then Some (CHR ''t'')
      else None)"

definition escape_ascii :: "char \<Rightarrow> string" where
  "escape_ascii c =
     (case short_escape c of
        Some e \<Rightarrow> [backslash, e]
      | None \<Rightarrow>
          if is_control c \<or> c = CHR ''<'' \<or> c = CHR ''>'' \<or> c = CHR ''&''
          then [backslash, CHR ''u'', CHR ''0'', CHR ''0'', hex_char (byte c div 16), hex_char (byte c mod 16)]
          else [c])"

text \<open>A piece of a string (see \<^term>\<open>runes\<close>): invalid bytes, U+2028 and U+2029 are escaped.\<close>

definition escape_rune :: "string \<Rightarrow> string" where
  "escape_rune r =
     (if rune_len r = 0 then backslash # ''ufffd''
      else if rune_len r = 1 then escape_ascii (hd r)
      else if r = [CHR 0xE2, CHR 0x80, CHR 0xA8] then backslash # ''u2028''
      else if r = [CHR 0xE2, CHR 0x80, CHR 0xA9] then backslash # ''u2029''
      else r)"

definition json_string :: "string \<Rightarrow> string" where
  "json_string s = quote # concat (map escape_rune (runes s)) @ [quote]"

fun json_text :: "jval \<Rightarrow> string"
  and json_members :: "(string \<times> jval) list \<Rightarrow> string"
  and json_elements :: "jval list \<Rightarrow> string" where
  "json_text JNull = ''null''"
| "json_text (JBool b) = (if b then ''true'' else ''false'')"
| "json_text (JNumber t) = t"
| "json_text (JString s) = json_string s"
| "json_text (JArray vs) = CHR ''['' # json_elements vs @ '']''"
| "json_text (JObject ms) = CHR ''{'' # json_members ms @ ''}''"
| "json_text (GoStrings ss) = CHR ''['' # join_with (CHR '','') (map json_string ss) @ '']''"
| "json_members [] = []"
| "json_members [(k, v)] = json_string k @ CHR '':'' # json_text v"
| "json_members ((k, v) # m # ms) = json_string k @ CHR '':'' # json_text v @ CHR '','' # json_members (m # ms)"
| "json_elements [] = []"
| "json_elements [v] = json_text v"
| "json_elements (v # w # vs) = json_text v @ CHR '','' # json_elements (w # vs)"

section \<open>What is printed is parsed back\<close>

lemma hex_value_char [simp]: "0 \<le> n \<Longrightarrow> n < 16 \<Longrightarrow> hex_value (hex_char n) = Some n"
proof -
  assume "0 \<le> n" "n < 16"
  then have "n \<in> {0..15}" by simp
  then have "n \<in> set [0..15]" by simp
  moreover have "\<forall>n \<in> set [0..15]. hex_value (hex_char n) = Some n" by code_simp
  ultimately show ?thesis by blast
qed

lemma short_escape_char: "short_escape c = Some e \<Longrightarrow> escape_char (e # t) = Some ([c], t)"
  by (auto simp: short_escape_def split: if_splits)

lemma ascii_escape:
  assumes "is_ascii c"
  shows "\<exists>e es. escape_ascii c = e # es \<and> e \<noteq> quote \<and> literal_char e (es @ t) = Some ([c], t)"
proof -
  have r: "0 \<le> byte c" "byte c < 128" using assms by (cases c; simp add: is_ascii_def)+
  then have h: "hex_value (hex_char (byte c div 16)) = Some (byte c div 16)"
    "hex_value (hex_char (byte c mod 16)) = Some (byte c mod 16)"
    by (auto intro!: hex_value_char)
  have z: "hex_value (CHR ''0'') = Some 0" by (simp add: hex_value_def)
  have b: "16 * (byte c div 16) + byte c mod 16 = byte c" by simp
  have e: "escaped_unit (byte c) t = ([c], t)"
  proof -
    have "encode_rune (byte c) = [c]" using r by (simp add: encode_rune_def)
    moreover have "\<not> surrogate (byte c)" using r by (simp add: surrogate_def)
    ultimately show ?thesis by (cases t rule: remdups_adj.cases) auto
  qed
  have u: "literal_char backslash ([CHR ''u'', CHR ''0'', CHR ''0'', hex_char (byte c div 16), hex_char (byte c mod 16)] @ t)
      = Some ([c], t)"
    using h z b e by (simp add: literal_char_def)
  show ?thesis
  proof (cases "short_escape c")
    case (Some x)
    then have "escape_ascii c = backslash # [x]"
      by (simp add: escape_ascii_def)
    moreover have "literal_char backslash ([x] @ t) = Some ([c], t)"
      using short_escape_char [OF Some] by (simp add: literal_char_def del: escape_char.simps)
    moreover have "backslash \<noteq> quote" by simp
    ultimately show ?thesis by blast
  next
    case None
    then have "c \<noteq> quote" "c \<noteq> backslash" by (auto simp: short_escape_def split: if_splits)
    note plain = this
    show ?thesis
    proof (cases "is_control c \<or> c = CHR ''<'' \<or> c = CHR ''>'' \<or> c = CHR ''&''")
      case True
      then have "escape_ascii c =
          backslash # [CHR ''u'', CHR ''0'', CHR ''0'', hex_char (byte c div 16), hex_char (byte c mod 16)]"
        unfolding escape_ascii_def None by simp
      moreover have "backslash \<noteq> quote" by simp
      ultimately show ?thesis using u by blast
    next
      case False
      then have "escape_ascii c = [c]"
        unfolding escape_ascii_def None by simp
      moreover have "literal_char c ([] @ t) = Some ([c], t)"
        using plain(2) False assms by (simp add: literal_char_def)
      ultimately show ?thesis using plain(1) by blast
    qed
  qed
qed

lemma parse_string_char:
  assumes "e \<noteq> quote" "literal_char e rest = Some (out, t)"
  shows "parse_string (e # rest) = (case parse_string t of None \<Rightarrow> None | Some (s, r) \<Rightarrow> Some (out @ s, r))"
  using assms by simp

lemma parse_string_piece:
  assumes "r \<in> set (runes s)"
  shows "parse_string (escape_rune r @ t) =
    (case parse_string t of
       None \<Rightarrow> None
     | Some (v, u) \<Rightarrow> Some ((if rune_len r = 0 then replacement else r) @ v, u))"
  using runes_cases [OF assms]
proof (elim disjE conjE exE)
  fix c
  assume z: "rune_len r = 0"
  have "getu4 (''fffd'' @ t) = Some (0xFFFD, t)"
    by (simp add: hex_value_def)
  moreover have "escaped_unit 0xFFFD t = (replacement, t)"
    by (cases t rule: remdups_adj.cases)
      (simp_all add: surrogate_def encode_rune_def unbyte_def replacement_def)
  ultimately have "literal_char backslash (''ufffd'' @ t) = Some (replacement, t)"
    by (simp add: literal_char_def del: getu4.simps)
  then show ?thesis
    using z parse_string_char [of backslash "''ufffd'' @ t"] by (simp add: escape_rune_def)
next
  assume r: "rune_len r = length r" "r \<noteq> []" "\<forall>t. rune_len (r @ t) = length r"
  obtain c cs where c: "r = c # cs" using r(2) by (cases r) auto
  have nz: "rune_len r \<noteq> 0" using r by simp
  show ?thesis
  proof (cases "rune_len r = 1")
    case True
    then have "is_ascii c" "cs = []"
      using rune_len_one [of c cs] r(1) c by auto
    then show ?thesis
      using ascii_escape [of c t] parse_string_char True c by (auto simp: escape_rune_def)
  next
    case False
    then have na: "\<not> is_ascii c"
      using rune_len_one [of c cs] c by simp
    then have "digit7 c" by (simp add: is_ascii_def)
    then have "c \<noteq> quote" "c \<noteq> backslash" "\<not> is_control c"
      by (auto simp: is_control_def)
    moreover have "rune_len (c # cs @ t) = Suc (length cs)"
      using r(3) c by (metis append_Cons length_Cons)
    ultimately have raw: "parse_string (r @ t) =
        (case parse_string t of None \<Rightarrow> None | Some (v, u) \<Rightarrow> Some (r @ v, u))"
      using na unfolding c by (simp add: literal_char_def)
    have escaped: "parse_string (backslash # ''u202'' @ x # t) = parse_string (r @ t)"
      if "r = [CHR 0xE2, CHR 0x80, y]" "x = CHR ''8'' \<and> y = CHR 0xA8 \<or> x = CHR ''9'' \<and> y = CHR 0xA9" for x y
    proof -
      have "escape_char (''u202'' @ x # t) = Some (r, t)"
        using that by (cases t rule: remdups_adj.cases)
          (auto simp: hex_value_def surrogate_def encode_rune_def unbyte_def)
      then have "literal_char backslash (''u202'' @ x # t) = Some (r, t)"
        by (simp add: literal_char_def)
      from parse_string_char [OF _ this] raw show ?thesis by simp
    qed
    from raw show ?thesis
      using False nz escaped [of "CHR 0xA8" "CHR ''8''"] escaped [of "CHR 0xA9" "CHR ''9''"] by (auto simp: escape_rune_def)
  qed
qed

lemma parse_escaped:
  "set rs \<subseteq> set (runes s) \<Longrightarrow> parse_string (concat (map escape_rune rs) @ quote # t) =
    Some (concat (map (\<lambda>r. if rune_len r = 0 then replacement else r) rs), t)"
proof (induction rs)
  case (Cons r rs)
  then show ?case
    using parse_string_piece [of r s] by simp
qed simp

lemma parse_json_string: "parse_string (concat (map escape_rune (runes s)) @ quote # t) = Some (to_valid s, t)"
  using parse_escaped [of "runes s" s t] by (simp add: to_valid_def)

text \<open>
  Values without numbers whose nesting stays within the scanner's bound, inside \<open>d\<close> open
  arrays and objects; and the value with its strings repaired, as it is read back.
\<close>

fun printable :: "int \<Rightarrow> jval \<Rightarrow> bool" where
  "printable d (JArray vs) = (d < max_nesting \<and> (\<forall>v \<in> set vs. printable (d + 1) v))"
| "printable d (JObject ms) = (d < max_nesting \<and> (\<forall>m \<in> set ms. printable (d + 1) (snd m)))"
| "printable d (JNumber t) = False"
| "printable d (GoStrings ss) = False"
| "printable d v = True"

fun repair :: "jval \<Rightarrow> jval" where
  "repair (JString s) = JString (to_valid s)"
| "repair (JArray vs) = JArray (map repair vs)"
| "repair (JObject ms) = JObject (map (\<lambda>m. (to_valid (fst m), repair (snd m))) ms)"
| "repair v = v"

lemma skip_space_id [simp]: "\<not> json_space c \<Longrightarrow> skip_space (c # cs) = c # cs"
  by (simp add: skip_space_def)

lemma json_space_facts [simp]:
  "\<not> json_space quote" "\<not> json_space (CHR ''{'')" "\<not> json_space (CHR ''['')" "\<not> json_space (CHR ''}'')"
  "\<not> json_space (CHR '']'')" "\<not> json_space (CHR '':'')" "\<not> json_space (CHR '','')"
  "\<not> json_space (CHR ''n'')" "\<not> json_space (CHR ''t'')" "\<not> json_space (CHR ''f'')"
  by (simp_all add: json_space_def)

lemma json_text_head:
  "printable d v \<Longrightarrow> \<exists>c cs. json_text v = c # cs \<and> \<not> json_space c \<and> c \<noteq> CHR '']''"
  by (cases v) (auto simp: json_string_def)

lemma json_elements_head:
  "printable d v \<Longrightarrow> \<exists>c cs. json_elements (v # vs) = c # cs \<and> \<not> json_space c \<and> c \<noteq> CHR '']''"
  using json_text_head [of d v] by (cases vs) auto

lemma json_members_head: "\<exists>cs. json_members (m # ms) = quote # cs"
  by (cases m; cases ms) (auto simp: json_string_def)

lemma parse_json_text:
  "printable d v \<Longrightarrow> 2 * length (json_text v @ t) < n \<Longrightarrow> parse_value n d (json_text v @ t) = Some (repair v, t)"
  "ms \<noteq> [] \<Longrightarrow> \<forall>m \<in> set ms. printable d (snd m) \<Longrightarrow>
    2 * length (json_members ms @ CHR ''}'' # t) < n \<Longrightarrow>
    parse_members n d (json_members ms @ CHR ''}'' # t) =
      Some (map (\<lambda>m. (to_valid (fst m), repair (snd m))) ms, t)"
  "vs \<noteq> [] \<Longrightarrow> \<forall>v \<in> set vs. printable d v \<Longrightarrow>
    Suc (2 * length (json_elements vs @ CHR '']'' # t)) < n \<Longrightarrow>
    parse_elements n d (json_elements vs @ CHR '']'' # t) = Some (map repair vs, t)"
proof (induction v and ms and vs arbitrary: d t n and d t n and d t n
    rule: json_text_json_members_json_elements.induct)
  case 1
  then show ?case by (cases n) (simp_all add: parse_value.simps(2) hasPrefix_def)
next
  case (2 b)
  then show ?case by (cases n) (simp_all add: parse_value.simps(2) hasPrefix_def)
next
  case (4 s)
  then show ?case
    by (cases n) (simp_all add: parse_value.simps(2) json_string_def parse_json_string)
next
  case (5 vs)
  obtain m where n: "n = Suc m" using "5.prems" by (cases n) auto
  show ?case
  proof (cases vs)
    case Nil
    then show ?thesis using "5.prems" n by (simp add: parse_value.simps(2))
  next
    case (Cons w ws)
    obtain c cs where c: "json_elements vs = c # cs" "\<not> json_space c" "c \<noteq> CHR '']''"
      using json_elements_head [of "d + 1" w ws] "5.prems" Cons by auto
    have "parse_elements m (d + 1) (json_elements vs @ CHR '']'' # t) = Some (map repair vs, t)"
      using "5.IH" [of "d + 1" t m] "5.prems" n Cons by simp
    then show ?thesis using "5.prems" n c by (simp add: parse_value.simps(2))
  qed
next
  case (6 ms)
  obtain m where n: "n = Suc m" using "6.prems" by (cases n) auto
  show ?case
  proof (cases ms)
    case Nil
    then show ?thesis using "6.prems" n by (simp add: parse_value.simps(2))
  next
    case (Cons w ws)
    obtain cs where c: "json_members ms = quote # cs"
      using json_members_head [of w ws] Cons by auto
    have "parse_members m (d + 1) (json_members ms @ CHR ''}'' # t) =
        Some (map (\<lambda>m. (to_valid (fst m), repair (snd m))) ms, t)"
      using "6.IH" [of "d + 1" t m] "6.prems" n Cons by simp
    then show ?thesis using "6.prems" n c by (simp add: parse_value.simps(2))
  qed
next
  case (9 k v)
  then show ?case
    by (cases n) (simp_all add: parse_members.simps(2) json_string_def parse_json_string)
next
  case (10 k v m ms)
  then show ?case
    by (cases n) (simp_all add: parse_members.simps(2) json_string_def parse_json_string)
next
  case (12 v)
  then show ?case
    by (cases n) (simp_all add: parse_elements.simps(2))
next
  case (13 v w vs)
  then show ?case
    by (cases n) (simp_all add: parse_elements.simps(2))
qed simp_all

lemma parse_json_of_text:
  assumes "printable 0 v"
  shows "parse_json (json_text v) = Some (repair v)"
  using parse_json_text(1) [OF assms, of "[]" "2 * length (json_text v) + 1"]
  by (simp add: parse_json_def skip_space_def)

section \<open>What is parsed is valid UTF-8\<close>

lemma literal_char_whole:
  assumes "literal_char c rest = Some (out, t)"
  shows "whole_rune out"
proof -
  have unit: "whole_rune (fst (escaped_unit r s))" for r s
    by (cases s rule: remdups_adj.cases)
      (auto simp: whole_encoded whole_replacement split: option.splits)
  have esc: "whole_rune out" if "escape_char rest = Some (out, t)"
  proof (cases rest)
    case (Cons e s)
    have ascii: "whole_rune [CHR 0x08]" "whole_rune [CHR 0x0C]" "whole_rune [CHR 0x0A]"
      "whole_rune [CHR 0x0D]" "whole_rune [CHR 0x09]" "whole_rune [quote]" "whole_rune [backslash]"
      "whole_rune [CHR ''/'']"
      by (simp_all add: whole_ascii is_ascii_def)
    from that consider "out = [e]" "e = quote \<or> e = backslash \<or> e = CHR ''/''"
      | "out \<in> {[CHR 0x08], [CHR 0x0C], [CHR 0x0A], [CHR 0x0D], [CHR 0x09]}"
      | r u where "escaped_unit r u = (out, t)"
      unfolding Cons escape_char.simps by (auto split: if_splits)
    then show ?thesis
    proof cases
      case 3
      then show ?thesis using unit by (metis fst_conv)
    qed (use ascii in auto)
  qed (use that in simp)
  show ?thesis
    using assms esc whole_ascii [of c] whole_take [of "c # rest"] whole_replacement
    by (auto simp: literal_char_def Let_def split: if_splits)
qed

lemma parse_string_valid: "parse_string s = Some (v, r) \<Longrightarrow> valid_utf8 v"
proof (induction s arbitrary: v r rule: parse_string.induct)
  case (2 c cs)
  show ?case
  proof (cases "c = quote")
    case False
    then obtain out rest s where l: "literal_char c cs = Some (out, rest)" "parse_string rest = Some (s, r)"
      and v: "v = out @ s"
      using "2.prems" by (auto split: option.splits)
    then show ?thesis
      using "2.IH" [OF False l(1) refl l(2)] valid_utf8_rune [OF literal_char_whole [OF l(1)]] by simp
  qed (use "2.prems" in simp)
qed simp

fun text_valid :: "jval \<Rightarrow> bool" where
  "text_valid (JString s) = valid_utf8 s"
| "text_valid (JArray vs) = (\<forall>v \<in> set vs. text_valid v)"
| "text_valid (JObject ms) = (\<forall>m \<in> set ms. valid_utf8 (fst m) \<and> text_valid (snd m))"
| "text_valid (GoStrings ss) = (\<forall>s \<in> set ss. valid_utf8 s)"
| "text_valid v = True"

lemma parse_valid:
  "parse_value n d s = Some (v, r) \<Longrightarrow> text_valid v"
  "parse_members n d s = Some (ms, r) \<Longrightarrow> \<forall>m \<in> set ms. valid_utf8 (fst m) \<and> text_valid (snd m)"
  "parse_elements n d s = Some (vs, r) \<Longrightarrow> \<forall>v \<in> set vs. text_valid v"
proof (induction n arbitrary: d s v r ms vs)
  case (Suc n)
  note IH = Suc.IH
  {
    case 1
    then show ?case
      unfolding parse_value.simps(2)
      by (auto split: list.splits if_splits dest!: parse_string_valid IH(2,3))
  next
    case 2
    then show ?case
      unfolding parse_members.simps(2)
      by (auto split: list.splits option.splits if_splits dest!: parse_string_valid IH(1,2)) fastforce+
  next
    case 3
    then show ?case
      unfolding parse_elements.simps(2)
      by (auto split: list.splits option.splits if_splits dest!: IH(1,3))
  }
qed simp_all

lemma parse_json_valid: "parse_json s = Some v \<Longrightarrow> text_valid v"
  by (auto simp: parse_json_def dest: parse_valid(1) split: option.splits if_splits)

section \<open>Towards Go values\<close>

text \<open>
  The errors of \<^verbatim>\<open>Unmarshal\<close>: the text is no JSON, or a value does not fit the Go type it is
  for. \<open>NilNode\<close> is a \<^verbatim>\<open>null\<close> where the model has no nil pointer, see \<^verbatim>\<open>Vault_Json\<close>.
\<close>

datatype json_error =
    InvalidJson
  | TypeMismatch
  | NilNode

text \<open>
  Struct fields match by name, exactly or up to Unicode simple folding: two non-ASCII
  runes fold to an ASCII letter, U+017F and U+212A.
\<close>

definition fold_rune :: "string \<Rightarrow> string" where
  "fold_rune r =
     (if r = [CHR 0xC5, CHR 0xBF] then ''S''
      else if r = [CHR 0xE2, CHR 0x84, CHR 0xAA] then ''K''
      else map ascii_upper r)"

definition fold_name :: "string \<Rightarrow> string" where
  "fold_name s = concat (map fold_rune (runes s))"

definition is_field :: "string \<Rightarrow> string \<Rightarrow> bool" where
  "is_field name key \<longleftrightarrow> key = name \<or> fold_name key = fold_name name"

end
