(* ===== verification/Vault_Json.thy ===== *)
theory Vault_Json
  imports Vault_Tree Go_Json "HOL-Library.List_Lexorder" "HOL-Library.Char_ord"
begin

text \<open>
  What \<^verbatim>\<open>json.Marshal\<close> and \<^verbatim>\<open>json.Unmarshal\<close> do for the types of the vault, by their
  struct tags (vault.go: \<^verbatim>\<open>VaultNode\<close>, \<^verbatim>\<open>VaultTree\<close>), and for the mount attributes (csi.go: a
  \<^verbatim>\<open>map[string]string\<close>). A node that is \<^verbatim>\<open>null\<close> in the document, which Go would store as a
  nil pointer, is refused with an error of its own: trees of the model have no nil nodes.
\<close>

section \<open>Decoding\<close>

text \<open>A \<^verbatim>\<open>null\<close> leaves a string or a bool as it is; fields with another name are ignored.\<close>

fun node_fields :: "(string \<times> jval) list \<Rightarrow> VaultNode \<Rightarrow> json_error + VaultNode" where
  "node_fields [] n = Inr n"
| "node_fields ((k, v) # rest) n =
     (if is_field ''value'' k then
        (case v of
           JString s \<Rightarrow> node_fields rest (n\<lparr>Value := s\<rparr>)
         | JNull \<Rightarrow> node_fields rest n
         | _ \<Rightarrow> Inl TypeMismatch)
      else if is_field ''isFolder'' k then
        (case v of
           JBool b \<Rightarrow> node_fields rest (n\<lparr>IsFolder := b\<rparr>)
         | JNull \<Rightarrow> node_fields rest n
         | _ \<Rightarrow> Inl TypeMismatch)
      else node_fields rest n)"

text \<open>The entries of the map: each node is a new one, so a repeated key keeps its last node.\<close>

fun tree_entries ::
    "(string \<times> jval) list \<Rightarrow> (string, VaultNode) gomap \<Rightarrow> json_error + (string, VaultNode) gomap" where
  "tree_entries [] ns = Inr ns"
| "tree_entries ((k, v) # rest) ns =
     (case v of
        JObject fs \<Rightarrow>
          (case node_fields fs \<lparr>Value = [], IsFolder = False\<rparr> of
             Inl e \<Rightarrow> Inl e
           | Inr n \<Rightarrow> tree_entries rest (AList.update k n ns))
      | JNull \<Rightarrow> Inl NilNode
      | _ \<Rightarrow> Inl TypeMismatch)"

text \<open>A repeated \<^verbatim>\<open>nodes\<close> field adds to the map; \<^verbatim>\<open>null\<close> makes it nil.\<close>

fun tree_fields :: "(string \<times> jval) list \<Rightarrow> VaultTree \<Rightarrow> json_error + VaultTree" where
  "tree_fields [] t = Inr t"
| "tree_fields ((k, v) # rest) t =
     (if is_field ''nodes'' k then
        (case v of
           JObject ms \<Rightarrow>
             (case tree_entries ms (nodes_of t) of
                Inl e \<Rightarrow> Inl e
              | Inr ns \<Rightarrow> tree_fields rest (t\<lparr>Nodes := Some ns\<rparr>))
         | JNull \<Rightarrow> tree_fields rest (t\<lparr>Nodes := None\<rparr>)
         | _ \<Rightarrow> Inl TypeMismatch)
      else tree_fields rest t)"

definition unmarshal_tree :: "bytes \<Rightarrow> json_error + VaultTree" where
  "unmarshal_tree data =
     (case parse_json data of
        None \<Rightarrow> Inl InvalidJson
      | Some v \<Rightarrow>
          (case v of
             JObject ms \<Rightarrow> tree_fields ms \<lparr>Nodes = None\<rparr>
           | JNull \<Rightarrow> Inr \<lparr>Nodes = None\<rparr>
           | _ \<Rightarrow> Inl TypeMismatch))"

text \<open>The attributes; a \<^verbatim>\<open>null\<close> entry is the empty string, a \<^verbatim>\<open>null\<close> document the nil map.\<close>

fun attr_entries :: "(string \<times> jval) list \<Rightarrow> (string, string) gomap \<Rightarrow> json_error + (string, string) gomap" where
  "attr_entries [] m = Inr m"
| "attr_entries ((k, v) # rest) m =
     (case v of
        JString s \<Rightarrow> attr_entries rest (AList.update k s m)
      | JNull \<Rightarrow> attr_entries rest (AList.update k [] m)
      | _ \<Rightarrow> Inl TypeMismatch)"

definition unmarshal_attrs :: "bytes \<Rightarrow> json_error + (string, string) gomap" where
  "unmarshal_attrs data =
     (case parse_json data of
        None \<Rightarrow> Inl InvalidJson
      | Some v \<Rightarrow>
          (case v of
             JObject ms \<Rightarrow> attr_entries ms []
           | JNull \<Rightarrow> Inr []
           | _ \<Rightarrow> Inl TypeMismatch))"

section \<open>Encoding\<close>

text \<open>Map entries are written in the order of their keys. Nothing in these types can fail.\<close>

definition node_json :: "VaultNode \<Rightarrow> jval" where
  "node_json n = JObject [(''value'', JString (Value n)), (''isFolder'', JBool (IsFolder n))]"

definition tree_json :: "VaultTree \<Rightarrow> jval" where
  "tree_json t =
     JObject [(''nodes'',
       case Nodes t of
         None \<Rightarrow> JNull
       | Some ns \<Rightarrow> JObject (map (\<lambda>(k, n). (k, node_json n)) (sort_key fst ns)))]"

definition marshal_tree :: "VaultTree \<Rightarrow> bytes" where
  "marshal_tree t = json_text (tree_json t)"

section \<open>Decoding undoes encoding\<close>

text \<open>
  A decoded tree has the lookups of the encoded one; the order of a Go map is not part of
  its value. \<^verbatim>\<open>json.Marshal\<close> replaces invalid UTF-8, so a value is read back repaired.
\<close>

definition same_tree :: "VaultTree \<Rightarrow> VaultTree \<Rightarrow> bool" where
  "same_tree t u \<longleftrightarrow> map_of (nodes_of t) = map_of (nodes_of u)"

definition repair_node :: "VaultNode \<Rightarrow> VaultNode" where
  "repair_node n = n\<lparr>Value := to_valid (Value n)\<rparr>"

definition repair_tree :: "VaultTree \<Rightarrow> VaultTree" where
  "repair_tree t = \<lparr>Nodes = map_option (map (\<lambda>(k, n). (k, repair_node n))) (Nodes t)\<rparr>"

definition keys_text :: "VaultTree \<Rightarrow> bool" where
  "keys_text t \<longleftrightarrow> (\<forall>(k, n) \<in> set (nodes_of t). valid_utf8 k)"

definition values_text :: "VaultTree \<Rightarrow> bool" where
  "values_text t \<longleftrightarrow> (\<forall>(k, n) \<in> set (nodes_of t). valid_utf8 (Value n))"

lemma nodes_of_repair: "nodes_of (repair_tree t) = map (\<lambda>(k, n). (k, repair_node n)) (nodes_of t)"
  by (simp add: repair_tree_def nodes_of_def split: option.splits)

lemma repair_tree_id:
  assumes "values_text t"
  shows "nodes_of (repair_tree t) = nodes_of t"
  unfolding nodes_of_repair
proof (rule map_idI)
  fix x assume "x \<in> set (nodes_of t)"
  with assms show "(case x of (k, n) \<Rightarrow> (k, repair_node n)) = x"
    by (auto simp: values_text_def repair_node_def to_valid_id)
qed

lemma wf_repair: "wf_map (nodes_of t) \<Longrightarrow> wf_map (nodes_of (repair_tree t))"
  by (simp add: wf_map_def nodes_of_repair comp_def case_prod_unfold)

lemma rooted_repair: "keys_rooted t \<Longrightarrow> keys_rooted (repair_tree t)"
  by (auto simp: keys_rooted_def nodes_of_repair)

lemma field_names:
  "is_field ''value'' ''value''" "is_field ''isFolder'' ''isFolder''" "is_field ''nodes'' ''nodes''"
  "\<not> is_field ''value'' ''isFolder''" "to_valid ''value'' = ''value''" "to_valid ''isFolder'' = ''isFolder''"
  "to_valid ''nodes'' = ''nodes''"
  by code_simp+

lemma tree_entries_node: "tree_entries ((k, node_json n) # rest) ns = tree_entries rest (AList.update k n ns)"
  by (cases n) (simp add: node_json_def field_names)

lemma tree_entries_json:
  "wf_map (acc @ ns) \<Longrightarrow> tree_entries (map (\<lambda>(k, n). (k, node_json n)) ns) acc = Inr (acc @ ns)"
proof (induction ns arbitrary: acc)
  case (Cons x ns)
  obtain k n where x: "x = (k, n)" by fastforce
  have "map_of acc k = None" using Cons.prems x by (auto simp: wf_map_def map_of_eq_None_iff)
  then have "AList.update k n acc = acc @ [(k, n)]" by (rule update_new_key)
  then show ?case
    using Cons.IH [of "acc @ [(k, n)]"] Cons.prems x by (simp add: tree_entries_node del: tree_entries.simps)
qed simp

lemma repair_node_json: "repair (node_json n) = node_json (repair_node n)"
  by (simp add: node_json_def repair_node_def field_names)

lemma unmarshal_marshal:
  assumes "keys_text t" "wf_map (nodes_of t)"
  shows "\<exists>u. unmarshal_tree (marshal_tree t) = Inr u \<and> same_tree u (repair_tree t) \<and> wf_map (nodes_of u)"
proof -
  have "printable 0 (tree_json t)"
    by (cases "Nodes t") (auto simp: tree_json_def node_json_def max_nesting_def)
  then have p: "parse_json (marshal_tree t) = Some (repair (tree_json t))"
    unfolding marshal_tree_def by (rule parse_json_of_text)
  show ?thesis
  proof (cases "Nodes t")
    case None
    then show ?thesis
      using p by (simp add: unmarshal_tree_def tree_json_def field_names same_tree_def nodes_of_def repair_tree_def)
  next
    case (Some ns)
    let ?ns = "map (\<lambda>(k, n). (k, repair_node n)) (sort_key fst ns)"
    have "to_valid k = k" if "(k, n) \<in> set ns" for k n
      using assms(1) that Some by (auto simp: keys_text_def nodes_of_def intro: to_valid_id)
    then have r: "repair (tree_json t) =
        JObject [(''nodes'', JObject (map (\<lambda>(k, n). (k, node_json n)) ?ns))]"
      using Some by (auto simp: tree_json_def field_names repair_node_json)
    have keys: "map fst ?ns = map fst (sort_key fst ns)" by auto
    have wf: "wf_map ?ns"
      using assms(2) Some unfolding wf_map_def keys by (simp add: nodes_of_def distinct_map)
    have "nodes_of t = ns" using Some by (simp add: nodes_of_def)
    then have "map_of ?ns = map_of (nodes_of (repair_tree t))"
      using wf wf_repair [OF assms(2)]
      by (intro map_of_order_irrelevant) (auto simp: nodes_of_repair)
    then show ?thesis
      using p r tree_entries_json [of "[]" ?ns] wf Some
      by (simp add: unmarshal_tree_def field_names same_tree_def nodes_of_def [of "\<lparr>Nodes = Some x\<rparr>" for x])
  qed
qed

section \<open>What is decoded is well formed\<close>

text \<open>
  The type of a decoded tree: distinct keys, and valid UTF-8 in keys and values. After the
  normalisation all keys also start with a slash.
\<close>

definition text_map :: "(string, VaultNode) gomap \<Rightarrow> bool" where
  "text_map ns \<longleftrightarrow> wf_map ns \<and> (\<forall>(k, n) \<in> set ns. valid_utf8 k \<and> valid_utf8 (Value n))"

definition tree_typed :: "VaultTree \<Rightarrow> bool" where
  "tree_typed t \<longleftrightarrow> text_map (nodes_of t) \<and> keys_rooted t"

lemma text_map_Nil [simp]: "text_map []"
  by (simp add: text_map_def)

lemma text_map_update:
  "text_map ns \<Longrightarrow> valid_utf8 k \<Longrightarrow> valid_utf8 (Value n) \<Longrightarrow> text_map (AList.update k n ns)"
  by (auto simp: text_map_def set_update_wf split: if_splits)

lemma node_fields_valid:
  "node_fields ms n = Inr n' \<Longrightarrow> text_valid (JObject ms) \<Longrightarrow> valid_utf8 (Value n) \<Longrightarrow> valid_utf8 (Value n')"
  by (induction ms n rule: node_fields.induct) (auto split: if_splits jval.splits)

lemma tree_entries_valid:
  "tree_entries ms ns = Inr ns' \<Longrightarrow> text_valid (JObject ms) \<Longrightarrow> text_map ns \<Longrightarrow> text_map ns'"
proof (induction ms ns rule: tree_entries.induct)
  case (2 k v rest ns)
  then obtain fs n where v: "v = JObject fs" and n: "node_fields fs \<lparr>Value = [], IsFolder = False\<rparr> = Inr n"
    and rest: "tree_entries rest (AList.update k n ns) = Inr ns'"
    by (auto split: jval.splits sum.splits)
  have "valid_utf8 (Value n)"
    using node_fields_valid [OF n] "2.prems"(2) v by simp
  then show ?case
    using "2.IH" [OF v n rest] "2.prems" by (simp add: text_map_update)
qed simp

lemma tree_fields_valid:
  "tree_fields ms t = Inr t' \<Longrightarrow> text_valid (JObject ms) \<Longrightarrow> text_map (nodes_of t) \<Longrightarrow> text_map (nodes_of t')"
proof (induction ms arbitrary: t)
  case (Cons m rest)
  obtain k v where m: "m = (k, v)" by fastforce
  have rest: "text_valid (JObject rest)" using Cons.prems(2) by simp
  show ?case
  proof (cases "is_field ''nodes'' k \<and> (\<exists>ms. v = JObject ms)")
    case True
    then obtain ms ns where v: "v = JObject ms" and ns: "tree_entries ms (nodes_of t) = Inr ns"
      and more: "tree_fields rest (t\<lparr>Nodes := Some ns\<rparr>) = Inr t'"
      using Cons.prems(1) m by (auto split: sum.splits)
    have "text_map ns"
      using tree_entries_valid [OF ns] Cons.prems(2,3) m v by simp
    then show ?thesis using Cons.IH [OF more rest] by simp
  next
    case False
    then have "tree_fields rest t = Inr t' \<or> tree_fields rest (t\<lparr>Nodes := None\<rparr>) = Inr t'"
      using Cons.prems(1) m by (auto split: if_splits jval.splits)
    then show ?thesis using Cons.IH [OF _ rest] Cons.prems(3) by auto
  qed
qed simp

lemma unmarshal_tree_valid: "unmarshal_tree data = Inr t \<Longrightarrow> text_map (nodes_of t)"
  by (auto simp: unmarshal_tree_def dest!: parse_json_valid tree_fields_valid
      split: option.splits jval.splits)

lemma valid_normalizePath: "valid_utf8 p \<Longrightarrow> valid_utf8 (normalizePath p)"
  using valid_utf8_rune [OF whole_ascii [of slash], of p] valid_utf8_rune [OF whole_ascii [of slash], of "[]"]
  by (simp add: normalizePath_def is_ascii_def)

lemma normalize_loop_valid: "text_map ns \<Longrightarrow> text_map acc \<Longrightarrow> text_map (normalize_loop ns acc)"
proof (induction ns acc rule: normalize_loop.induct)
  case (2 k v rest acc)
  have "text_map rest" "valid_utf8 k" "valid_utf8 (Value v)"
    using "2.prems"(1) by (auto simp: text_map_def wf_map_def)
  with 2 show ?case
    by (auto simp: Let_def text_map_update valid_normalizePath split: option.splits)
qed simp

lemma normalizeKeys_typed: "text_map (nodes_of t) \<Longrightarrow> tree_typed (normalizeKeys t)"
  using normalizeKeys_keys [of t] normalize_loop_valid [of "nodes_of t" "[]"]
  by (auto simp: tree_typed_def normalizeKeys_def nodes_of_def split: option.splits)

lemma tree_typed_empty: "tree_typed empty_tree"
  by (simp add: tree_typed_def keys_rooted_def)

lemma tree_typed_text: "tree_typed t \<Longrightarrow> keys_text t \<and> values_text t \<and> wf_map (nodes_of t) \<and> keys_rooted t"
  by (auto simp: tree_typed_def text_map_def keys_text_def values_text_def)

end
