(* ===== verification/Vault_World.thy ===== *)
theory Vault_World
  imports Vault_Json
begin

text \<open>
  What the vault manager relies on and does not contain: the Kubernetes client for the one
  Secret that holds the vault, the \<^verbatim>\<open>age\<close> library and the clock. They are the fields of the record \<open>vault_env\<close>, functions over a type \<open>'s\<close> of states of the
  outside world that is threaded through every call, so that other writers may act
  between any two calls. Two locales state the documented behaviour the code relies on:
  \<open>optimistic_store\<close> (the API server rejects a stale \<^verbatim>\<open>ResourceVersion\<close>) and \<open>age_cipher\<close>
  (decryption undoes encryption).
\<close>

section \<open>The Secret and its client\<close>

datatype k8s_error =
    NotFound
  | AlreadyExists
  | Conflict
  | ServerError string

text \<open>\<^verbatim>\<open>corev1.Secret\<close>: \<^verbatim>\<open>Data\<close> is nil (\<^term>\<open>None\<close>) for a Secret without entries.\<close>

record k8s_secret =
  sec_data :: "(string, bytes) gomap option"
  sec_rv :: string

datatype 'id age_identity =
    X25519Identity 'id
  | OtherIdentity

text \<open>
  \<open>age_decrypt\<close> is \<^verbatim>\<open>age.Decrypt\<close>: \<open>Inl\<close> when no recipient stanza matches, else what
  reading the plaintext to its end gives. \<open>age_encrypt\<close> is \<^verbatim>\<open>age.Encrypt\<close> with the write
  and the close of its writer; it draws randomness, so it changes the world.
\<close>

record ('s, 'id) vault_env =
  k8s_get :: "'s \<Rightarrow> (k8s_error + k8s_secret) \<times> 's"
  k8s_create :: "(string, bytes) gomap \<Rightarrow> 's \<Rightarrow> (k8s_error + unit) \<times> 's"
  k8s_update :: "k8s_secret \<Rightarrow> 's \<Rightarrow> (k8s_error + unit) \<times> 's"
  sleep_ms :: "nat \<Rightarrow> 's \<Rightarrow> 's"
  age_parse :: "string \<Rightarrow> string + 'id age_identity list"
  age_recipient :: "'id \<Rightarrow> string"
  age_encrypt :: "string \<Rightarrow> bytes \<Rightarrow> 's \<Rightarrow> (string + bytes) \<times> 's"
  age_decrypt :: "'id \<Rightarrow> bytes \<Rightarrow> string + (string + bytes)"

section \<open>Histories of the stored Secret\<close>

text \<open>
  The history of a Secret is the list of its committed writes: \<open>Ours\<close> by the calls being
  modelled, \<open>Theirs\<close> by other replicas or users (\<^term>\<open>None\<close> for a deletion).
\<close>

datatype commit =
    Ours k8s_secret
  | Theirs "k8s_secret option"

fun content :: "commit \<Rightarrow> k8s_secret option" where
  "content (Ours sec) = Some sec"
| "content (Theirs x) = x"

fun is_ours :: "commit \<Rightarrow> bool" where
  "is_ours (Ours sec) = True"
| "is_ours (Theirs x) = False"

definition current :: "commit list \<Rightarrow> k8s_secret option" where
  "current h = (if h = [] then None else content (last h))"

text \<open>\<open>moved h h'\<close>: from \<open>h\<close> to \<open>h'\<close> only other writers have committed.\<close>

definition moved :: "commit list \<Rightarrow> commit list \<Rightarrow> bool" where
  "moved h h' \<longleftrightarrow> (\<exists>xs. h' = h @ xs \<and> list_all (\<lambda>c. \<not> is_ours c) xs)"

definition ours :: "commit list \<Rightarrow> nat" where
  "ours h = length (filter is_ours h)"

lemma moved_refl [simp, intro]: "moved h h"
  by (simp add: moved_def)

lemma moved_trans [trans]: "moved h h' \<Longrightarrow> moved h' h'' \<Longrightarrow> moved h h''"
  by (auto simp: moved_def)

lemma moved_ours: "moved h h' \<Longrightarrow> ours h' = ours h"
  by (auto simp: moved_def ours_def list_all_iff filter_empty_conv)

lemma ours_snoc [simp]: "ours (h @ [Ours sec]) = Suc (ours h)"
  by (simp add: ours_def)

lemma current_snoc [simp]: "current (h @ [c]) = content c"
  by (simp add: current_def)

text \<open>
  If no two commits carry the same version and the current version after more commits is
  the one that was read, then there were no more commits.
\<close>

definition versions_distinct :: "commit list \<Rightarrow> bool" where
  "versions_distinct h \<longleftrightarrow>
     distinct (map sec_rv (List.map_filter content h))"

lemma current_rev_mem:
  "current h = Some sec \<Longrightarrow> \<exists>g c. h = g @ [c] \<and> content c = Some sec"
  by (cases h rule: rev_cases) (auto simp: current_def)

lemma same_version_same_history:
  assumes "versions_distinct (h @ xs)" and "current h = Some a" and "current (h @ xs) = Some b"
    and "sec_rv a = sec_rv b"
  shows "xs = []"
proof (rule ccontr)
  assume "xs \<noteq> []"
  then obtain ys c where xs: "xs = ys @ [c]"
    by (metis rev_exhaust)
  obtain g d where h: "h = g @ [d]" "content d = Some a"
    using assms(2) current_rev_mem by blast
  have "content c = Some b"
    using assms(3) xs by (simp add: current_def)
  with assms(1,4) h xs show False
    by (simp add: versions_distinct_def map_filter_def)
qed

section \<open>The API server\<close>

text \<open>
  The documented contract of optimistic concurrency. Every call may be preceded by
  commits of other writers. A read returns the current Secret; a create succeeds only on
  an absent Secret; an update succeeds only if the version sent is the current one, and
  then commits exactly the data sent. A rejected write commits nothing; any other server
  error leaves open whether the write took place, once.
\<close>

definition at_most_one :: "commit list \<Rightarrow> commit list \<Rightarrow> bool" where
  "at_most_one h h' \<longleftrightarrow> moved h h' \<or> (\<exists>g sec. moved h g \<and> moved (g @ [Ours sec]) h')"

lemma at_most_one_ours: "at_most_one h h' \<Longrightarrow> ours h' \<le> Suc (ours h)"
  by (auto simp: at_most_one_def dest!: moved_ours)

lemma moved_at_most_one: "moved h h' \<Longrightarrow> at_most_one h h'"
  by (simp add: at_most_one_def)

lemma at_most_one_after: "moved h h' \<Longrightarrow> at_most_one h' h'' \<Longrightarrow> at_most_one h h''"
  unfolding at_most_one_def by (blast intro: moved_trans)

lemma at_most_one_commit: "moved h g \<Longrightarrow> h' = g @ [Ours sec] \<Longrightarrow> at_most_one h h'"
  unfolding at_most_one_def by blast

locale optimistic_store =
  fixes E :: "('s, 'id) vault_env"
    and hist :: "'s \<Rightarrow> commit list"
  assumes get_moves: "k8s_get E s = (r, s') \<Longrightarrow> moved (hist s) (hist s')"
    and get_current: "k8s_get E s = (Inr sec, s') \<Longrightarrow> current (hist s') = Some sec"
    and get_absent: "k8s_get E s = (Inl NotFound, s') \<Longrightarrow> current (hist s') = None"
    and create_commits: "k8s_create E d s = (Inr u, s') \<Longrightarrow>
      \<exists>h sec. moved (hist s) h \<and> current h = None \<and> hist s' = h @ [Ours sec] \<and> sec_data sec = Some d"
    and create_rejected: "k8s_create E d s = (Inl e, s') \<Longrightarrow> (\<And>msg. e \<noteq> ServerError msg) \<Longrightarrow>
      moved (hist s) (hist s')"
    and update_commits: "k8s_update E sec s = (Inr u, s') \<Longrightarrow>
      \<exists>h old new. moved (hist s) h \<and> current h = Some old \<and> sec_rv old = sec_rv sec \<and>
        hist s' = h @ [Ours new] \<and> sec_data new = sec_data sec"
    and update_rejected: "k8s_update E sec s = (Inl e, s') \<Longrightarrow> (\<And>msg. e \<noteq> ServerError msg) \<Longrightarrow>
      moved (hist s) (hist s')"
    and sleep_moves: "moved (hist s) (hist (sleep_ms E n s))"
    and encrypt_moves: "age_encrypt E rcp pt s = (enc, s') \<Longrightarrow> moved (hist s) (hist s')"
    and versions: "versions_distinct (hist s)"
    and create_unknown: "k8s_create E d s = (Inl (ServerError msg), s') \<Longrightarrow> at_most_one (hist s) (hist s')"
    and update_unknown: "k8s_update E sec s = (Inl (ServerError msg), s') \<Longrightarrow> at_most_one (hist s) (hist s')"
begin

text \<open>
  The one consequence every read-modify-write relies on: if the Secret read at \<open>s\<close> is
  written back successfully, nobody committed in between.
\<close>

lemma update_on_read:
  assumes "current (hist s0) = Some sec" and "moved (hist s0) (hist s)"
    and upd: "k8s_update E (sec\<lparr>sec_data := d\<rparr>) s = (Inr u, s')"
  shows "\<exists>new. hist s' = hist s0 @ [Ours new] \<and> sec_data new = d"
proof -
  obtain h old new where h: "moved (hist s) h" "current h = Some old" "sec_rv old = sec_rv sec"
    "hist s' = h @ [Ours new]" "sec_data new = d"
    using update_commits [OF upd] by auto
  from assms(2) h(1) obtain xs where xs: "h = hist s0 @ xs"
    by (auto simp: moved_def)
  have "versions_distinct h"
    using versions [of s'] h(4) by (simp add: versions_distinct_def map_filter_def)
  then have "xs = []"
    using same_version_same_history [of "hist s0" xs sec old] assms(1) h(2,3) xs by simp
  with xs h(4,5) show ?thesis by simp
qed

end

section \<open>The cipher\<close>

text \<open>Decryption undoes encryption to the recipient of the same identity.\<close>

locale age_cipher =
  fixes E :: "('s, 'id) vault_env"
  assumes decrypt_encrypt: "age_encrypt E (age_recipient E i) pt s = (Inr ct, s') \<Longrightarrow>
      ct \<noteq> [] \<and> age_decrypt E i ct = Inr (Inr pt)"

end
