(* ===== verification/Vault_Manager.thy ===== *)
theory Vault_Manager
  imports Vault_World
begin

text \<open>
  \<^verbatim>\<open>VaultManager\<close> (vault.go): its lock state, unlocking with verification of the key
  against the stored vault, loading, saving, and the read-modify-write cycle
  \<^verbatim>\<open>UpdateVault\<close>. Each operation takes the environment and the state of the world and
  returns its result with the new world. The namespace and the name of the Secret are the
  same in every call, so they are part of the environment.
\<close>

section \<open>State and errors\<close>

record 'id VaultManager =
  identity :: "'id option"
  isLocked :: bool

datatype vault_error =
    ErrVaultLocked
  | ErrVaultAlreadyUnlocked
  | InvalidMasterKey string
  | VerifyLoadFailed k8s_error
  | CannotDecryptExisting string
  | DecryptFailed string
  | ReadFailed string
  | JsonFailed json_error
  | EncryptFailed string
  | K8sFailed k8s_error
  | ModifierFailed string
  | TooManyConflicts nat

text \<open>A call that returns an error value, or panics (an assignment into a nil map).\<close>

datatype call_result =
    Returned "vault_error option"
  | Panicked

section \<open>Locking\<close>

definition IsLocked :: "'id VaultManager \<Rightarrow> bool" where
  "IsLocked m = isLocked m"

text \<open>The loop over the parsed identities: the first X25519 one.\<close>

fun first_x25519 :: "'id age_identity list \<Rightarrow> 'id option" where
  "first_x25519 [] = None"
| "first_x25519 (X25519Identity x # ids) = Some x"
| "first_x25519 (OtherIdentity # ids) = first_x25519 ids"

definition parse_master_key :: "('s, 'id) vault_env \<Rightarrow> string \<Rightarrow> vault_error + 'id" where
  "parse_master_key E masterKey =
     (case age_parse E masterKey of
        Inl e \<Rightarrow> Inl (InvalidMasterKey e)
      | Inr ids \<Rightarrow>
          (case first_x25519 ids of
             Some x \<Rightarrow> Inr x
           | None \<Rightarrow> Inl (InvalidMasterKey ''no X25519 identity found in master key'')))"

definition vault_enc :: "k8s_secret \<Rightarrow> bytes option" where
  "vault_enc sec = (case sec_data sec of None \<Rightarrow> None | Some d \<Rightarrow> map_of d ''vault.enc'')"

definition verifyIdentity ::
    "('s, 'id) vault_env \<Rightarrow> 'id \<Rightarrow> 's \<Rightarrow> vault_error option \<times> 's" where
  "verifyIdentity E i s =
     (case k8s_get E s of
        (Inl NotFound, s1) \<Rightarrow> (None, s1)
      | (Inl e, s1) \<Rightarrow> (Some (VerifyLoadFailed e), s1)
      | (Inr sec, s1) \<Rightarrow>
          (case vault_enc sec of
             None \<Rightarrow> (None, s1)
           | Some ciphertext \<Rightarrow>
               if ciphertext = [] then (None, s1)
               else (case age_decrypt E i ciphertext of
                       Inl e \<Rightarrow> (Some (CannotDecryptExisting e), s1)
                     | Inr reader \<Rightarrow> (None, s1))))"

text \<open>The part of \<^verbatim>\<open>Unlock\<close> under the write lock, which repeats the check.\<close>

definition unlock_commit ::
    "'id \<Rightarrow> 'id VaultManager \<Rightarrow> vault_error option \<times> 'id VaultManager" where
  "unlock_commit i m =
     (if \<not> isLocked m then (Some ErrVaultAlreadyUnlocked, m)
      else (None, m\<lparr>identity := Some i, isLocked := False\<rparr>))"

definition Unlock ::
    "('s, 'id) vault_env \<Rightarrow> string \<Rightarrow> 'id VaultManager \<Rightarrow> 's \<Rightarrow>
     vault_error option \<times> 'id VaultManager \<times> 's" where
  "Unlock E masterKey m s =
     (if \<not> IsLocked m then (Some ErrVaultAlreadyUnlocked, m, s)
      else (case parse_master_key E masterKey of
              Inl e \<Rightarrow> (Some e, m, s)
            | Inr i \<Rightarrow>
                (case verifyIdentity E i s of
                   (Some e, s1) \<Rightarrow> (Some e, m, s1)
                 | (None, s1) \<Rightarrow>
                     (case unlock_commit i m of (err, m1) \<Rightarrow> (err, m1, s1)))))"

text \<open>
  \<^verbatim>\<open>NewVaultManager\<close>: start locked, and try the key of the provider, if there is one. The
  provider is a function of the world; a failure leaves the vault locked.
\<close>

definition NewVaultManager ::
    "('s, 'id) vault_env \<Rightarrow> ('s \<Rightarrow> (string + string) \<times> 's) option \<Rightarrow> 's \<Rightarrow>
     'id VaultManager \<times> 's" where
  "NewVaultManager E keyProvider s =
     (let vm = \<lparr>identity = None, isLocked = True\<rparr>
      in case keyProvider of
           None \<Rightarrow> (vm, s)
         | Some getMasterKey \<Rightarrow>
             (case getMasterKey s of
                (Inl err, s1) \<Rightarrow> (vm, s1)
              | (Inr key, s1) \<Rightarrow>
                  if key = [] then (vm, s1)
                  else (case Unlock E key vm s1 of (err, vm', s2) \<Rightarrow> (vm', s2))))"

section \<open>Loading and saving\<close>

text \<open>
  The three steps that turn a ciphertext into a tree, as \<^verbatim>\<open>LoadAndDecrypt\<close> and
  \<^verbatim>\<open>UpdateVault\<close> both have them. Only \<^verbatim>\<open>LoadAndDecrypt\<close> normalises the keys afterwards.
\<close>

definition decrypt_tree ::
    "('s, 'id) vault_env \<Rightarrow> 'id \<Rightarrow> bytes \<Rightarrow> vault_error + VaultTree" where
  "decrypt_tree E i ciphertext =
     (case age_decrypt E i ciphertext of
        Inl e \<Rightarrow> Inl (DecryptFailed e)
      | Inr reader \<Rightarrow>
          (case reader of
             Inl e \<Rightarrow> Inl (ReadFailed e)
           | Inr plaintext \<Rightarrow>
               (case unmarshal_tree plaintext of
                  Inl e \<Rightarrow> Inl (JsonFailed e)
                | Inr t \<Rightarrow> Inr t)))"

definition LoadAndDecrypt ::
    "('s, 'id) vault_env \<Rightarrow> 'id VaultManager \<Rightarrow> 's \<Rightarrow> (vault_error + VaultTree) \<times> 's" where
  "LoadAndDecrypt E m s =
     (case (isLocked m, identity m) of
        (False, Some i) \<Rightarrow>
          (case k8s_get E s of
             (Inl NotFound, s1) \<Rightarrow> (Inr empty_tree, s1)
           | (Inl e, s1) \<Rightarrow> (Inl (K8sFailed e), s1)
           | (Inr sec, s1) \<Rightarrow>
               (case vault_enc sec of
                  None \<Rightarrow> (Inr empty_tree, s1)
                | Some ciphertext \<Rightarrow>
                    if ciphertext = [] then (Inr empty_tree, s1)
                    else (case decrypt_tree E i ciphertext of
                            Inl e \<Rightarrow> (Inl e, s1)
                          | Inr t \<Rightarrow> (Inr (normalizeKeys t), s1))))
      | _ \<Rightarrow> (Inl ErrVaultLocked, s))"

text \<open>\<^verbatim>\<open>json.Marshal\<close> cannot fail on a tree.\<close>

definition encryptTree ::
    "('s, 'id) vault_env \<Rightarrow> VaultTree \<Rightarrow> 'id \<Rightarrow> 's \<Rightarrow> (vault_error + bytes) \<times> 's" where
  "encryptTree E tree i s =
     (case age_encrypt E (age_recipient E i) (marshal_tree tree) s of
        (Inl e, s1) \<Rightarrow> (Inl (EncryptFailed e), s1)
      | (Inr ct, s1) \<Rightarrow> (Inr ct, s1))"

definition EncryptAndSave ::
    "('s, 'id) vault_env \<Rightarrow> VaultTree \<Rightarrow> 'id VaultManager \<Rightarrow> 's \<Rightarrow> vault_error option \<times> 's" where
  "EncryptAndSave E tree m s =
     (case (isLocked m, identity m) of
        (False, Some i) \<Rightarrow>
          (case encryptTree E tree i s of
             (Inl e, s1) \<Rightarrow> (Some e, s1)
           | (Inr ciphertext, s1) \<Rightarrow>
               (case k8s_get E s1 of
                  (Inl NotFound, s2) \<Rightarrow>
                    (case k8s_create E [(''vault.enc'', ciphertext)] s2 of
                       (Inl e, s3) \<Rightarrow> (Some (K8sFailed e), s3)
                     | (Inr u, s3) \<Rightarrow> (None, s3))
                | (Inl e, s2) \<Rightarrow> (Some (K8sFailed e), s2)
                | (Inr sec, s2) \<Rightarrow>
                    (let d = (case sec_data sec of None \<Rightarrow> [] | Some d \<Rightarrow> d);
                         sec' = sec\<lparr>sec_data := Some (AList.update ''vault.enc'' ciphertext d)\<rparr>
                     in case k8s_update E sec' s2 of
                          (Inl e, s3) \<Rightarrow> (Some (K8sFailed e), s3)
                        | (Inr u, s3) \<Rightarrow> (None, s3))))
      | _ \<Rightarrow> (Some ErrVaultLocked, s))"

section \<open>Read, modify, write\<close>

definition maxRetries :: nat where
  "maxRetries = 5"

text \<open>
  The tree an attempt modifies. There is no call of \<^verbatim>\<open>normalizeKeys\<close> here.
\<close>

definition stored_tree ::
    "('s, 'id) vault_env \<Rightarrow> 'id \<Rightarrow> k8s_secret \<Rightarrow> vault_error + VaultTree" where
  "stored_tree E i sec =
     (case vault_enc sec of
        Some ciphertext \<Rightarrow>
          if ciphertext \<noteq> [] then decrypt_tree E i ciphertext else Inr empty_tree
      | None \<Rightarrow> Inr empty_tree)"

text \<open>
  The body of the loop of \<^verbatim>\<open>UpdateVault\<close>, \<open>attempt\<close> being the loop variable: \<open>Some\<close> is a
  \<^verbatim>\<open>return\<close> (or a panic: the write into the nil \<^verbatim>\<open>Data\<close> of an entry-less Secret), \<^term>\<open>None\<close> a
  \<^verbatim>\<open>continue\<close>.
\<close>

definition update_attempt ::
    "('s, 'id) vault_env \<Rightarrow> 'id \<Rightarrow> (VaultTree \<Rightarrow> string + VaultTree) \<Rightarrow> nat \<Rightarrow> 's \<Rightarrow>
     call_result option \<times> 's" where
  "update_attempt E i modifier attempt s =
     (case k8s_get E s of
        (Inl NotFound, s1) \<Rightarrow>
          (case modifier empty_tree of
             Inl e \<Rightarrow> (Some (Returned (Some (ModifierFailed e))), s1)
           | Inr tree \<Rightarrow>
               (case encryptTree E tree i s1 of
                  (Inl e, s2) \<Rightarrow> (Some (Returned (Some e)), s2)
                | (Inr ciphertext, s2) \<Rightarrow>
                    (case k8s_create E [(''vault.enc'', ciphertext)] s2 of
                       (Inl AlreadyExists, s3) \<Rightarrow> (None, s3)
                     | (Inl e, s3) \<Rightarrow> (Some (Returned (Some (K8sFailed e))), s3)
                     | (Inr u, s3) \<Rightarrow> (Some (Returned None), s3))))
      | (Inl e, s1) \<Rightarrow> (Some (Returned (Some (K8sFailed e))), s1)
      | (Inr sec, s1) \<Rightarrow>
          (case stored_tree E i sec of
             Inl e \<Rightarrow> (Some (Returned (Some e)), s1)
           | Inr tree0 \<Rightarrow>
               (case modifier tree0 of
                  Inl e \<Rightarrow> (Some (Returned (Some (ModifierFailed e))), s1)
                | Inr tree \<Rightarrow>
                    (case encryptTree E tree i s1 of
                       (Inl e, s2) \<Rightarrow> (Some (Returned (Some e)), s2)
                     | (Inr ciphertext, s2) \<Rightarrow>
                         (case sec_data sec of
                            None \<Rightarrow> (Some Panicked, s2)
                          | Some d \<Rightarrow>
                              (case k8s_update E
                                      (sec\<lparr>sec_data := Some (AList.update ''vault.enc'' ciphertext d)\<rparr>)
                                      s2 of
                                 (Inr u, s3) \<Rightarrow> (Some (Returned None), s3)
                               | (Inl Conflict, s3) \<Rightarrow>
                                   if attempt < maxRetries - 1
                                   then (None, sleep_ms E ((attempt + 1) * 50) s3)
                                   else (Some (Returned (Some (K8sFailed Conflict))), s3)
                               | (Inl e, s3) \<Rightarrow> (Some (Returned (Some (K8sFailed e))), s3)))))))"

text \<open>The loop: the first number counts the attempts left.\<close>

fun update_loop ::
    "('s, 'id) vault_env \<Rightarrow> 'id \<Rightarrow> (VaultTree \<Rightarrow> string + VaultTree) \<Rightarrow>
     nat \<Rightarrow> nat \<Rightarrow> 's \<Rightarrow> call_result \<times> 's" where
  "update_loop E i modifier 0 attempt s = (Returned (Some (TooManyConflicts maxRetries)), s)"
| "update_loop E i modifier (Suc left) attempt s =
     (case update_attempt E i modifier attempt s of
        (Some r, s') \<Rightarrow> (r, s')
      | (None, s') \<Rightarrow> update_loop E i modifier left (Suc attempt) s')"

definition UpdateVault ::
    "('s, 'id) vault_env \<Rightarrow> (VaultTree \<Rightarrow> string + VaultTree) \<Rightarrow> 'id VaultManager \<Rightarrow> 's \<Rightarrow>
     call_result \<times> 's" where
  "UpdateVault E modifier m s =
     (case (isLocked m, identity m) of
        (False, Some i) \<Rightarrow> update_loop E i modifier maxRetries 0 s
      | _ \<Rightarrow> (Returned (Some ErrVaultLocked), s))"

end
