(* ===== verification/Vault_Atomic.thy ===== *)
theory Vault_Atomic
  imports Vault_Manager
begin

text \<open>
  The contract of the vault manager against the world: \<^verbatim>\<open>UpdateVault\<close> is an atomic
  read-modify-write of the stored Secret, \<^verbatim>\<open>Unlock\<close> installs a key that opens the stored
  vault and never replaces one, and what is saved is loaded back. The proofs are done
  once in the locale that joins the two contracts of the world.
\<close>

section \<open>The lock state\<close>

text \<open>A manager holds an identity exactly when it is unlocked.\<close>

definition vm_ok :: "'id VaultManager \<Rightarrow> bool" where
  "vm_ok m \<longleftrightarrow> (isLocked m \<longleftrightarrow> identity m = None)"

lemma vm_ok_Unlock: "Unlock E key m s = (err, m', s') \<Longrightarrow> vm_ok m \<Longrightarrow> vm_ok m'"
  by (auto simp: Unlock_def unlock_commit_def vm_ok_def
      split: if_splits sum.splits prod.splits option.splits)

lemma vm_ok_New: "NewVaultManager E kp s = (m, s') \<Longrightarrow> vm_ok m"
  by (auto simp: NewVaultManager_def vm_ok_def Let_def
      split: option.splits prod.splits sum.splits if_splits
      dest: vm_ok_Unlock [unfolded vm_ok_def])

lemma Unlock_unlocked: "\<not> isLocked m \<Longrightarrow> Unlock E key m s = (Some ErrVaultAlreadyUnlocked, m, s)"
  by (simp add: Unlock_def IsLocked_def)

lemma Unlock_error: "Unlock E key m s = (Some e, m', s') \<Longrightarrow> m' = m"
  by (auto simp: Unlock_def unlock_commit_def
      split: if_splits sum.splits prod.splits option.splits)

lemma Unlock_ok:
  assumes "Unlock E key m s = (None, m', s')"
  obtains i where "isLocked m" and "parse_master_key E key = Inr i"
    and "verifyIdentity E i s = (None, s')" and "m' = m\<lparr>identity := Some i, isLocked := False\<rparr>"
  using assms by (auto simp: Unlock_def unlock_commit_def IsLocked_def
      split: if_splits sum.splits prod.splits option.splits)

text \<open>Locked managers refuse every operation on the vault and do not touch the world.\<close>

lemma locked_refuses:
  assumes "isLocked m"
  shows "LoadAndDecrypt E m s = (Inl ErrVaultLocked, s)"
    and "EncryptAndSave E t m s = (Some ErrVaultLocked, s)"
    and "UpdateVault E md m s = (Returned (Some ErrVaultLocked), s)"
  using assms by (simp_all add: LoadAndDecrypt_def EncryptAndSave_def UpdateVault_def)

section \<open>The trees of a history\<close>

text \<open>
  The tree that an attempt starts from when the current Secret is the given one, and the
  condition that a committed Secret holds a tree.
\<close>

definition base_tree ::
    "('s, 'id) vault_env \<Rightarrow> 'id \<Rightarrow> k8s_secret option \<Rightarrow> vault_error + VaultTree" where
  "base_tree E i c = (case c of None \<Rightarrow> Inr empty_tree | Some sec \<Rightarrow> stored_tree E i sec)"

definition holds_tree :: "('s, 'id) vault_env \<Rightarrow> 'id \<Rightarrow> k8s_secret \<Rightarrow> VaultTree \<Rightarrow> bool" where
  "holds_tree E i sec t \<longleftrightarrow>
     (\<exists>ct. vault_enc sec = Some ct \<and> ct \<noteq> [] \<and> age_decrypt E i ct = Inr (Inr (marshal_tree t)))"

text \<open>\<open>commits_update\<close>: one own commit, of the modified current tree, and nothing else.\<close>

definition commits_update ::
    "('s, 'id) vault_env \<Rightarrow> ('s \<Rightarrow> commit list) \<Rightarrow> 'id \<Rightarrow> (VaultTree \<Rightarrow> string + VaultTree) \<Rightarrow>
     's \<Rightarrow> 's \<Rightarrow> bool" where
  "commits_update E hist i md s s' \<longleftrightarrow>
     (\<exists>h new t t'. moved (hist s) h \<and> hist s' = h @ [Ours new] \<and>
        base_tree E i (current h) = Inr t \<and> md t = Inr t' \<and> holds_tree E i new t')"

lemma vault_enc_saved [simp]:
  "sec_data sec = Some (AList.update ''vault.enc'' ct d) \<Longrightarrow> vault_enc sec = Some ct"
  "sec_data sec = Some [(''vault.enc'', ct)] \<Longrightarrow> vault_enc sec = Some ct"
  by (simp_all add: vault_enc_def update_conv')

section \<open>The service\<close>

locale vault_service = optimistic_store E hist + age_cipher E
  for E :: "('s, 'id) vault_env" and hist :: "'s \<Rightarrow> commit list"
begin

lemma encryptTree_moves: "encryptTree E t i s = (r, s') \<Longrightarrow> moved (hist s) (hist s')"
  by (auto simp: encryptTree_def dest: encrypt_moves split: sum.splits prod.splits)

lemma encryptTree_holds:
  assumes "encryptTree E t i s = (Inr ct, s')" and "vault_enc sec = Some ct"
  shows "holds_tree E i sec t"
  using assms decrypt_encrypt
  by (fastforce simp: encryptTree_def holds_tree_def split: sum.splits prod.splits)

lemma holds_tree_decodes:
  assumes "holds_tree E i sec t" "keys_text t" "wf_map (nodes_of t)"
  shows "\<exists>u. stored_tree E i sec = Inr u \<and> same_tree u (repair_tree t) \<and> wf_map (nodes_of u)"
  using assms unmarshal_marshal
  by (fastforce simp: holds_tree_def stored_tree_def decrypt_tree_def)

text \<open>The three ways an attempt can end.\<close>

lemma attempt_continues:
  assumes "update_attempt E i md n s = (None, s')"
  shows "moved (hist s) (hist s')"
  using assms
  by (auto simp: update_attempt_def split: sum.splits prod.splits k8s_error.splits option.splits if_splits
      dest!: get_moves encryptTree_moves create_rejected update_rejected intro: moved_trans)
     (blast intro: moved_trans sleep_moves)+

lemma attempt_creates:
  assumes g: "k8s_get E s = (Inl NotFound, s1)" and md: "md empty_tree = Inr t"
    and enc: "encryptTree E t i s1 = (Inr ct, s2)"
    and cr: "k8s_create E [(''vault.enc'', ct)] s2 = (Inr u, s3)"
  shows "commits_update E hist i md s s3"
proof -
  obtain h sec where h: "moved (hist s2) h" "current h = None" "hist s3 = h @ [Ours sec]"
    "sec_data sec = Some [(''vault.enc'', ct)]"
    using create_commits [OF cr] by blast
  have "moved (hist s) h"
    using get_moves [OF g] encryptTree_moves [OF enc] h(1) by (blast intro: moved_trans)
  moreover have "holds_tree E i sec t"
    using encryptTree_holds [OF enc] h(4) by simp
  ultimately show ?thesis
    unfolding commits_update_def using h md by (auto simp: base_tree_def)
qed

lemma attempt_updates:
  assumes g: "k8s_get E s = (Inr sec, s1)" and st: "stored_tree E i sec = Inr t"
    and md: "md t = Inr t'" and enc: "encryptTree E t' i s1 = (Inr ct, s2)"
    and up: "k8s_update E (sec\<lparr>sec_data := Some (AList.update ''vault.enc'' ct d)\<rparr>) s2 = (Inr u, s3)"
  shows "commits_update E hist i md s s3"
proof -
  obtain new where new: "hist s3 = hist s1 @ [Ours new]"
    "sec_data new = Some (AList.update ''vault.enc'' ct d)"
    using update_on_read [OF get_current [OF g] encryptTree_moves [OF enc] up] by blast
  then have "holds_tree E i new t'"
    using encryptTree_holds [OF enc] by simp
  with new(1) get_moves [OF g] get_current [OF g] st md show ?thesis
    unfolding commits_update_def by (auto simp: base_tree_def)
qed

lemma attempt_succeeds:
  assumes "update_attempt E i md n s = (Some (Returned None), s')"
  shows "commits_update E hist i md s s'"
  using assms
  by (auto simp: update_attempt_def split: sum.splits prod.splits k8s_error.splits option.splits if_splits
      intro: attempt_creates attempt_updates)

lemma attempt_fails:
  assumes "update_attempt E i md n s = (Some r, s')" and "r \<noteq> Returned None"
    and "\<And>msg. r \<noteq> Returned (Some (K8sFailed (ServerError msg)))"
  shows "moved (hist s) (hist s')"
  using assms
  by (auto simp: update_attempt_def split: sum.splits prod.splits k8s_error.splits option.splits if_splits
      dest!: get_moves encryptTree_moves create_rejected update_rejected intro: moved_trans)

lemma loop_succeeds:
  "update_loop E i md left n s = (Returned None, s') \<Longrightarrow> commits_update E hist i md s s'"
proof (induction left arbitrary: n s)
  case (Suc left)
  show ?case
  proof (cases "update_attempt E i md n s")
    case (Pair r s1)
    show ?thesis
    proof (cases r)
      case None
      then have "commits_update E hist i md s1 s'"
        using Suc Pair by simp
      then show ?thesis
        using attempt_continues Pair None unfolding commits_update_def by (blast intro: moved_trans)
    next
      case (Some a)
      with Suc.prems Pair show ?thesis by (auto intro: attempt_succeeds)
    qed
  qed
qed simp

lemma loop_fails:
  "update_loop E i md left n s = (r, s') \<Longrightarrow> r \<noteq> Returned None \<Longrightarrow>
   (\<And>msg. r \<noteq> Returned (Some (K8sFailed (ServerError msg)))) \<Longrightarrow> moved (hist s) (hist s')"
proof (induction left arbitrary: n s)
  case (Suc left)
  then show ?case
    by (cases "update_attempt E i md n s"; cases "fst (update_attempt E i md n s)")
       (auto intro: attempt_fails moved_trans dest: attempt_continues)
qed simp

text \<open>However it ends, a call commits at most once.\<close>

lemma create_once: "k8s_create E d s = (r, s') \<Longrightarrow> at_most_one (hist s) (hist s')"
  using create_commits [of d s _ s'] create_rejected [of d s _ s'] create_unknown [of d s _ s']
  by (cases r; cases "projl r")
     (auto intro: moved_at_most_one dest: at_most_one_commit)

lemma update_once: "k8s_update E sec s = (r, s') \<Longrightarrow> at_most_one (hist s) (hist s')"
  using update_commits [of sec s _ s'] update_rejected [of sec s _ s'] update_unknown [of sec s _ s']
  by (cases r; cases "projl r")
     (auto intro: moved_at_most_one dest: at_most_one_commit)

lemma attempt_once:
  assumes "update_attempt E i md n s = (Some r, s')"
  shows "at_most_one (hist s) (hist s')"
  using assms
  by (auto simp: update_attempt_def split: sum.splits prod.splits k8s_error.splits option.splits if_splits
      dest!: get_moves encryptTree_moves create_once update_once
      intro: moved_at_most_one at_most_one_after moved_trans)

lemma loop_once: "update_loop E i md left n s = (r, s') \<Longrightarrow> at_most_one (hist s) (hist s')"
proof (induction left arbitrary: n s)
  case (Suc left)
  show ?case
  proof (cases "update_attempt E i md n s")
    case (Pair a s1)
    with Suc show ?thesis
      by (cases a) (auto intro: attempt_once at_most_one_after dest: attempt_continues)
  qed
qed (simp add: moved_at_most_one)

lemma UpdateVault_once: "UpdateVault E md m s = (r, s') \<Longrightarrow> at_most_one (hist s) (hist s')"
  by (auto simp: UpdateVault_def moved_at_most_one dest: loop_once split: bool.splits option.splits)

lemma verified_key:
  assumes "verifyIdentity E i s = (None, s')"
  shows "moved (hist s) (hist s')"
    and "current (hist s') = Some sec \<Longrightarrow> vault_enc sec = Some ct \<Longrightarrow> ct \<noteq> [] \<Longrightarrow>
      \<exists>reader. age_decrypt E i ct = Inr reader"
  using assms get_moves get_current get_absent
  by (fastforce simp: verifyIdentity_def
      split: sum.splits prod.splits k8s_error.splits option.splits if_splits)+

lemma save_commits:
  assumes "EncryptAndSave E t m s = (None, s')"
  shows "\<exists>i h new. identity m = Some i \<and> \<not> isLocked m \<and> moved (hist s) h \<and>
    hist s' = h @ [Ours new] \<and> holds_tree E i new t"
proof -
  from assms obtain i where i: "identity m = Some i" "\<not> isLocked m"
    by (auto simp: EncryptAndSave_def split: bool.splits option.splits)
  with assms obtain ct s1 where enc: "encryptTree E t i s = (Inr ct, s1)"
    by (auto simp: EncryptAndSave_def split: prod.splits sum.splits)
  note h1 = encryptTree_moves [OF enc]
  obtain r s2 where g: "k8s_get E s1 = (r, s2)" by fastforce
  note h2 = moved_trans [OF h1 get_moves [OF g]]
  have "\<exists>h new. moved (hist s2) h \<and> hist s' = h @ [Ours new] \<and> vault_enc new = Some ct"
  proof (cases r)
    case (Inl e)
    with assms i enc g obtain u where "k8s_create E [(''vault.enc'', ct)] s2 = (Inr u, s')"
      by (auto simp: EncryptAndSave_def split: prod.splits sum.splits k8s_error.splits)
    from create_commits [OF this] show ?thesis by (auto simp: vault_enc_def)
  next
    case (Inr sec)
    with assms i enc g obtain u d where
      "k8s_update E (sec\<lparr>sec_data := Some (AList.update ''vault.enc'' ct d)\<rparr>) s2 = (Inr u, s')"
      by (auto simp: EncryptAndSave_def Let_def split: prod.splits sum.splits)
    from update_commits [OF this] show ?thesis by (auto simp: vault_enc_def update_conv')
  qed
  with i h2 encryptTree_holds [OF enc] show ?thesis by (blast intro: moved_trans)
qed

lemma load_decodes:
  assumes load: "LoadAndDecrypt E m s = (r, s')" and m: "identity m = Some i" "\<not> isLocked m"
    and cur: "current (hist s') = Some sec" and st: "stored_tree E i sec = Inr t"
  shows "(\<exists>u. r = Inr u \<and> u = normalizeKeys t) \<or> (\<exists>e. r = Inl (K8sFailed e))"
  using assms get_current get_absent
  by (fastforce simp: LoadAndDecrypt_def stored_tree_def normalizeKeys_def empty_tree_def
      split: sum.splits prod.splits k8s_error.splits option.splits if_splits)

lemma save_then_load:
  assumes save: "EncryptAndSave E t m s = (None, s1)"
    and load: "LoadAndDecrypt E m s1 = (r, s2)" and quiet: "hist s2 = hist s1"
    and t: "keys_text t" "wf_map (nodes_of t)" "keys_rooted t"
  shows "(\<exists>u. r = Inr u \<and> same_tree u (repair_tree t)) \<or> (\<exists>e. r = Inl (K8sFailed e))"
proof -
  obtain i h new where i: "identity m = Some i" "\<not> isLocked m"
    and new: "hist s1 = h @ [Ours new]" "holds_tree E i new t"
    using save_commits [OF save] by blast
  obtain u where u: "stored_tree E i new = Inr u" "same_tree u (repair_tree t)" "wf_map (nodes_of u)"
    using holds_tree_decodes [OF new(2) t(1,2)] by blast
  have "keys_rooted u"
    using u(2,3) rooted_repair [OF t(3)] map_of_iff_mem [OF u(3)] map_of_iff_mem [OF wf_repair [OF t(2)]]
    unfolding keys_rooted_def same_tree_def by (metis (mono_tags, lifting) case_prodI2 case_prodD)
  then have "normalizeKeys u = u"
    using u(3) by (rule normalizeKeys_rooted [rotated])
  with load_decodes [OF load i _ u(1)] quiet new(1) u(2) show ?thesis by auto
qed

end

end
