(* ===== verification/Unlock_Race.thy ===== *)
theory Unlock_Race
  imports Vault_Atomic
begin

text \<open>
  Concurrent calls of \<^verbatim>\<open>Unlock\<close> (vault.go). The call reads the lock state under the read
  lock, parses and verifies the key without any lock, and commits under the write lock
  after a second check. Here any number of calls, numbered by \<open>nat\<close>, interleave at these
  points, and other writers may change the stored vault at any time.
\<close>

section \<open>The step relation\<close>

datatype 'id call =
    NotStarted
  | Verifying 'id
  | Committing 'id
  | Finished "vault_error option"

record ('s, 'id) race =
  manager :: "'id VaultManager"
  calls :: "nat \<Rightarrow> 'id call"
  world :: 's

inductive unlock_step ::
    "('s, 'id) vault_env \<Rightarrow> ('s, 'id) race \<Rightarrow> ('s, 'id) race \<Rightarrow> bool"
  for E :: "('s, 'id) vault_env" where
  refuse: "calls r t = NotStarted \<Longrightarrow> \<not> IsLocked (manager r) \<Longrightarrow>
    unlock_step E r (r\<lparr>calls := (calls r)(t := Finished (Some ErrVaultAlreadyUnlocked))\<rparr>)"
| bad_key: "calls r t = NotStarted \<Longrightarrow> IsLocked (manager r) \<Longrightarrow>
    parse_master_key E key = Inl e \<Longrightarrow>
    unlock_step E r (r\<lparr>calls := (calls r)(t := Finished (Some e))\<rparr>)"
| parsed: "calls r t = NotStarted \<Longrightarrow> IsLocked (manager r) \<Longrightarrow>
    parse_master_key E key = Inr i \<Longrightarrow>
    unlock_step E r (r\<lparr>calls := (calls r)(t := Verifying i)\<rparr>)"
| verify_fails: "calls r t = Verifying i \<Longrightarrow> verifyIdentity E i (world r) = (Some e, s') \<Longrightarrow>
    unlock_step E r (r\<lparr>calls := (calls r)(t := Finished (Some e)), world := s'\<rparr>)"
| verified: "calls r t = Verifying i \<Longrightarrow> verifyIdentity E i (world r) = (None, s') \<Longrightarrow>
    unlock_step E r (r\<lparr>calls := (calls r)(t := Committing i), world := s'\<rparr>)"
| commits: "calls r t = Committing i \<Longrightarrow> unlock_commit i (manager r) = (err, m') \<Longrightarrow>
    unlock_step E r (r\<lparr>calls := (calls r)(t := Finished err), manager := m'\<rparr>)"
| others: "unlock_step E r (r\<lparr>world := s'\<rparr>)"

definition race_start :: "'s \<Rightarrow> ('s, 'id) race" where
  "race_start s =
     \<lparr>manager = \<lparr>identity = None, isLocked = True\<rparr>, calls = (\<lambda>_. NotStarted), world = s\<rparr>"

inductive race_reachable :: "('s, 'id) vault_env \<Rightarrow> ('s, 'id) race \<Rightarrow> bool"
  for E :: "('s, 'id) vault_env" where
  start: "race_reachable E (race_start s)"
| step: "race_reachable E r \<Longrightarrow> unlock_step E r r' \<Longrightarrow> race_reachable E r'"

section \<open>Invariants\<close>

definition key_verified :: "('s, 'id) vault_env \<Rightarrow> 'id \<Rightarrow> bool" where
  "key_verified E i \<longleftrightarrow> (\<exists>s s'. verifyIdentity E i s = (None, s'))"

text \<open>
  The winners are the calls that returned no error. There is exactly one when the vault is
  unlocked and none while it is locked, and a key that reaches the commit was verified.
\<close>

definition winners :: "(nat \<Rightarrow> 'id call) \<Rightarrow> nat set" where
  "winners cs = {t. cs t = Finished None}"

definition committing :: "(nat \<Rightarrow> 'id call) \<Rightarrow> 'id set" where
  "committing cs = {i. \<exists>t. cs t = Committing i}"

definition race_inv :: "('s, 'id) vault_env \<Rightarrow> ('s, 'id) race \<Rightarrow> bool" where
  "race_inv E r \<longleftrightarrow>
     vm_ok (manager r) \<and>
     (\<forall>i \<in> committing (calls r). key_verified E i) \<and>
     (\<forall>i. identity (manager r) = Some i \<longrightarrow> key_verified E i) \<and>
     (if isLocked (manager r) then winners (calls r) = {} else \<exists>t. winners (calls r) = {t})"

lemma winners_upd:
  "winners (cs(t := c)) = (if c = Finished None then insert t (winners cs) else winners cs - {t})"
  by (auto simp: winners_def)

lemma committing_upd: "committing (cs(t := c)) \<subseteq> committing cs \<union> {i. c = Committing i}"
  by (auto simp: committing_def split: if_splits)

lemma race_inv_start: "race_inv E (race_start s)"
  by (simp add: race_inv_def race_start_def vm_ok_def winners_def committing_def)

lemma race_inv_world [simp]: "race_inv E (r\<lparr>world := s'\<rparr>) = race_inv E r"
  by (simp add: race_inv_def)

lemma race_inv_call:
  assumes "race_inv E r" and "\<And>i. c = Committing i \<Longrightarrow> key_verified E i"
    and "c \<noteq> Finished None" and "calls r t \<noteq> Finished None"
  shows "race_inv E (r\<lparr>calls := (calls r)(t := c)\<rparr>)"
proof -
  have "winners ((calls r)(t := c)) = winners (calls r)"
    using assms(3,4) by (auto simp: winners_upd winners_def)
  moreover have "\<forall>i \<in> committing ((calls r)(t := c)). key_verified E i"
    using committing_upd [of "calls r" t c] assms(1,2) unfolding race_inv_def by blast
  ultimately show ?thesis using assms(1) by (simp add: race_inv_def)
qed

lemma race_inv_commit:
  assumes inv: "race_inv E r" and c: "calls r t = Committing i"
    and cm: "unlock_commit i (manager r) = (err, m')"
  shows "race_inv E (r\<lparr>calls := (calls r)(t := Finished err), manager := m'\<rparr>)"
proof (cases "isLocked (manager r)")
  case False
  then have "race_inv E (r\<lparr>calls := (calls r)(t := Finished err)\<rparr>)" and "m' = manager r"
    using assms by (auto simp: unlock_commit_def intro: race_inv_call)
  then show ?thesis by (simp add: race_inv_def cong: if_cong)
next
  case True
  have "key_verified E i"
    using inv c by (auto simp: race_inv_def committing_def)
  moreover have "\<forall>j \<in> committing ((calls r)(t := Finished err)). key_verified E j"
    using committing_upd [of "calls r" t "Finished err"] inv unfolding race_inv_def by blast
  ultimately show ?thesis
    using True inv cm by (auto simp: race_inv_def unlock_commit_def vm_ok_def winners_upd)
qed

lemma unlock_step_inv:
  "unlock_step E r r' \<Longrightarrow> race_inv E r \<Longrightarrow> race_inv E r'"
proof (induction rule: unlock_step.induct)
  case (commits r t i err m')
  then show ?case by (blast intro: race_inv_commit)
next
  case (verify_fails r t i e s')
  then have "race_inv E (r\<lparr>calls := (calls r)(t := Finished (Some e))\<rparr>)"
    by (intro race_inv_call) auto
  then show ?case by simp
next
  case (verified r t i s')
  then have "race_inv E (r\<lparr>calls := (calls r)(t := Committing i)\<rparr>)"
    by (intro race_inv_call) (auto simp: key_verified_def)
  then show ?case by simp
next
  case (others r s')
  then show ?case by simp
qed (rule race_inv_call, simp_all)+

lemma race_reachable_inv: "race_reachable E r \<Longrightarrow> race_inv E r"
  by (induction rule: race_reachable.induct) (auto intro: race_inv_start unlock_step_inv)

lemma unlock_step_unlocked:
  "unlock_step E r r' \<Longrightarrow> \<not> isLocked (manager r) \<Longrightarrow> manager r' = manager r"
  by (induction rule: unlock_step.induct) (auto simp: unlock_commit_def)

section \<open>The sequential call is a run\<close>

text \<open>\<^verbatim>\<open>Unlock\<close> without interference is a sequence of steps of one call.\<close>

inductive_cases unlock_step_cases [elim]: "unlock_step E r r'"

inductive unlock_run :: "('s, 'id) vault_env \<Rightarrow> ('s, 'id) race \<Rightarrow> ('s, 'id) race \<Rightarrow> bool"
  for E :: "('s, 'id) vault_env" where
  none: "unlock_run E r r"
| one: "unlock_step E r r' \<Longrightarrow> unlock_run E r' r'' \<Longrightarrow> unlock_run E r r''"

inductive_simps unlock_run_same: "unlock_run E r r"

lemma unlock_run_reachable: "unlock_run E r r' \<Longrightarrow> race_reachable E r \<Longrightarrow> race_reachable E r'"
  by (induction rule: unlock_run.induct) (auto intro: race_reachable.step)

lemma unlock_run_unlocked:
  "unlock_run E r r' \<Longrightarrow> \<not> isLocked (manager r) \<Longrightarrow> manager r' = manager r"
  by (induction rule: unlock_run.induct) (auto dest: unlock_step_unlocked)

lemma unlock_run_step: "unlock_step E r r' \<Longrightarrow> unlock_run E r r'"
  by (blast intro: unlock_run.intros)

lemma race_update_same [simp]:
  "r\<lparr>calls := f, manager := manager r, world := world r\<rparr> = r\<lparr>calls := f\<rparr>"
  by (cases r) simp

lemma race_update_swap [simp]:
  "r\<lparr>world := s', calls := f, manager := m'\<rparr> = r\<lparr>calls := f, manager := m', world := s'\<rparr>"
  by (cases r) simp

lemma Unlock_is_run:
  assumes "Unlock E key m s = (err, m', s')" and "calls r t = NotStarted"
    and "manager r = m" and "world r = s"
  shows "unlock_run E r (r\<lparr>calls := (calls r)(t := Finished err), manager := m', world := s'\<rparr>)"
proof (cases "isLocked m")
  case False
  with assms have "err = Some ErrVaultAlreadyUnlocked" "m' = manager r" "s' = world r"
    by (auto simp: Unlock_unlocked)
  moreover have "unlock_run E r (r\<lparr>calls := (calls r)(t := Finished (Some ErrVaultAlreadyUnlocked))\<rparr>)"
    using False assms by (intro unlock_run_step unlock_step.refuse) (auto simp: IsLocked_def)
  ultimately show ?thesis by simp
next
  case locked: True
  then have lk: "IsLocked (manager r)"
    using assms by (simp add: IsLocked_def)
  show ?thesis
  proof (cases "parse_master_key E key")
    case (Inl e)
    with assms locked have "err = Some e" "m' = manager r" "s' = world r"
      by (auto simp: Unlock_def IsLocked_def)
    with unlock_run_step [OF unlock_step.bad_key [OF assms(2) lk Inl]] show ?thesis
      by simp
  next
    case (Inr i)
    let ?r1 = "r\<lparr>calls := (calls r)(t := Verifying i)\<rparr>"
    have s1: "unlock_step E r ?r1"
      using unlock_step.parsed [OF assms(2) lk Inr] .
    obtain e s1 where v: "verifyIdentity E i s = (e, s1)" by fastforce
    show ?thesis
    proof (cases e)
      case (Some e')
      then have "unlock_step E ?r1 (?r1\<lparr>calls := (calls ?r1)(t := Finished (Some e')), world := s1\<rparr>)"
        using v assms(4) by (intro unlock_step.verify_fails) auto
      then have "unlock_run E r (?r1\<lparr>calls := (calls ?r1)(t := Finished (Some e')), world := s1\<rparr>)"
        by (blast intro: s1 unlock_run.intros)
      with Some v assms(1,3) locked Inr show ?thesis
        by (auto simp: Unlock_def IsLocked_def)
    next
      case None
      let ?r2 = "?r1\<lparr>calls := (calls ?r1)(t := Committing i), world := s1\<rparr>"
      have s2: "unlock_step E ?r1 ?r2"
        using v None assms(4) by (intro unlock_step.verified) auto
      have "unlock_step E ?r2 (?r2\<lparr>calls := (calls ?r2)(t := Finished err), manager := m'\<rparr>)"
        using assms(1,3) None v locked Inr
        by (intro unlock_step.commits [where i = i]) (auto simp: Unlock_def IsLocked_def split: prod.splits)
      then have "unlock_run E r (?r2\<lparr>calls := (calls ?r2)(t := Finished err), manager := m'\<rparr>)"
        by (blast intro: s1 s2 unlock_run.intros)
      with None v assms(1,3) locked Inr show ?thesis
        by (auto simp: Unlock_def IsLocked_def split: prod.splits)
    qed
  qed
qed

end
