(* ===== verification/Token_Claims.thy ===== *)
theory Token_Claims
  imports Go_Json
begin

text \<open>
  The claims of a token and what the code reads from them (permissions.go:
  \<^verbatim>\<open>emailVerified\<close>, \<^verbatim>\<open>audienceMatches\<close>, \<^verbatim>\<open>issuerMatches\<close>, \<^verbatim>\<open>looksLikeJWT\<close> and the claim
  checks of \<^verbatim>\<open>ValidateJWT\<close> and \<^verbatim>\<open>ValidateAccessToken\<close>). A claim is a Go \<^verbatim>\<open>any\<close>: one of the
  values a JSON decoder makes, or a \<^verbatim>\<open>[]string\<close>. Reading a missing claim gives nil.
\<close>

section \<open>Values\<close>

type_synonym claims = "(string, jval) gomap"

definition claim :: "claims \<Rightarrow> string \<Rightarrow> jval" where
  "claim cs k = (case map_of cs k of None \<Rightarrow> JNull | Some v \<Rightarrow> v)"

text \<open>The type assertion \<^verbatim>\<open>v.(string)\<close>.\<close>

fun as_string :: "jval \<Rightarrow> string option" where
  "as_string (JString s) = Some s"
| "as_string v = None"

section \<open>The checks\<close>

definition looksLikeJWT :: "string \<Rightarrow> bool" where
  "looksLikeJWT token \<longleftrightarrow> countChar token (CHR ''.'') = 2"

fun emailVerified :: "jval \<Rightarrow> bool" where
  "emailVerified (JBool v) = v"
| "emailVerified (JString v) = (v = ''true'')"
| "emailVerified v = False"

text \<open>The two loops over the audiences of a token.\<close>

fun aud_in_strings :: "string list \<Rightarrow> string \<Rightarrow> bool" where
  "aud_in_strings [] expected = False"
| "aud_in_strings (s # ss) expected = (if s = expected then True else aud_in_strings ss expected)"

fun aud_in_values :: "jval list \<Rightarrow> string \<Rightarrow> bool" where
  "aud_in_values [] expected = False"
| "aud_in_values (v # vs) expected =
     (case as_string v of
        Some str \<Rightarrow> if str = expected then True else aud_in_values vs expected
      | None \<Rightarrow> aud_in_values vs expected)"

definition audienceMatches :: "claims \<Rightarrow> string \<Rightarrow> bool" where
  "audienceMatches cs expected =
     (case map_of cs ''aud'' of
        None \<Rightarrow> False
      | Some raw \<Rightarrow>
          (case raw of
             JString v \<Rightarrow> v = expected
           | GoStrings v \<Rightarrow> aud_in_strings v expected
           | JArray v \<Rightarrow> aud_in_values v expected
           | _ \<Rightarrow> False))"

definition issuerMatches :: "claims \<Rightarrow> string \<Rightarrow> bool" where
  "issuerMatches cs expected =
     (case as_string (claim cs ''iss'') of None \<Rightarrow> False | Some raw \<Rightarrow> raw = expected)"

text \<open>
  The claim checks of \<^verbatim>\<open>ValidateJWT\<close>, after the signature was checked, in their order.
\<close>

datatype token_error =
    NotConfigured
  | BadToken string
  | InvalidToken
  | InvalidClaims
  | InvalidAudience
  | InvalidIssuer
  | NoUserClaim
  | EmailNotVerified
  | UserInfoFailed string

record claim_policy =
  userClaim :: string
  audience :: string
  issuer :: string

definition jwt_username :: "'a claim_policy_scheme \<Rightarrow> claims \<Rightarrow> token_error + string" where
  "jwt_username cp cs =
     (if audience cp \<noteq> [] \<and> \<not> audienceMatches cs (audience cp) then Inl InvalidAudience
      else if issuer cp \<noteq> [] \<and> \<not> issuerMatches cs (issuer cp) then Inl InvalidIssuer
      else (case as_string (claim cs (userClaim cp)) of
              None \<Rightarrow> Inl NoUserClaim
            | Some username \<Rightarrow>
                if username = [] then Inl NoUserClaim
                else if userClaim cp = ''email'' \<and> \<not> emailVerified (claim cs ''email_verified'')
                  then Inl EmailNotVerified
                else Inr username))"

text \<open>The claim checks of \<^verbatim>\<open>ValidateAccessToken\<close> on a UserInfo response.\<close>

definition userinfo_username :: "'a claim_policy_scheme \<Rightarrow> claims \<Rightarrow> token_error + string" where
  "userinfo_username cp cs =
     (let username = (case as_string (claim cs (userClaim cp)) of None \<Rightarrow> [] | Some u \<Rightarrow> u)
      in if username = [] then Inl NoUserClaim
         else if userClaim cp = ''email'' then
           (case claim cs ''email_verified'' of
              JBool v \<Rightarrow> if \<not> v then Inl EmailNotVerified else Inr username
            | JString v \<Rightarrow> if v = ''false'' then Inl EmailNotVerified else Inr username
            | _ \<Rightarrow> Inr username)
         else Inr username)"

section \<open>What the checks mean\<close>

text \<open>The audiences of a token, in any of the encodings.\<close>

fun audiences :: "jval \<Rightarrow> string set" where
  "audiences (JString s) = {s}"
| "audiences (GoStrings ss) = set ss"
| "audiences (JArray vs) = {s. JString s \<in> set vs}"
| "audiences v = {}"

lemma aud_in_strings_iff: "aud_in_strings ss e \<longleftrightarrow> e \<in> set ss"
  by (induction ss) auto

lemma as_string_iff: "as_string v = Some s \<longleftrightarrow> v = JString s"
  by (cases v) auto

lemma aud_in_values_iff: "aud_in_values vs e \<longleftrightarrow> JString e \<in> set vs"
  by (induction vs e rule: aud_in_values.induct) (auto simp: as_string_iff split: option.splits)

lemma audienceMatches_iff:
  "audienceMatches cs e \<longleftrightarrow> (\<exists>raw. map_of cs ''aud'' = Some raw \<and> e \<in> audiences raw)"
  by (auto simp: audienceMatches_def aud_in_strings_iff aud_in_values_iff split: option.splits jval.splits)

lemma claim_string_iff: "as_string (claim cs k) = Some s \<longleftrightarrow> map_of cs k = Some (JString s)"
  by (auto simp: claim_def as_string_iff split: option.splits)

lemma issuerMatches_iff: "issuerMatches cs e \<longleftrightarrow> map_of cs ''iss'' = Some (JString e)"
  using claim_string_iff [of cs "''iss''" e] by (auto simp: issuerMatches_def split: option.splits)

lemma emailVerified_iff: "emailVerified v \<longleftrightarrow> v = JBool True \<or> v = JString ''true''"
  by (cases v) auto

lemma jwt_username_iff:
  "jwt_username cp cs = Inr u \<longleftrightarrow>
     (audience cp = [] \<or> audienceMatches cs (audience cp)) \<and>
     (issuer cp = [] \<or> issuerMatches cs (issuer cp)) \<and>
     map_of cs (userClaim cp) = Some (JString u) \<and> u \<noteq> [] \<and>
     (userClaim cp = ''email'' \<longrightarrow> emailVerified (claim cs ''email_verified''))"
  using claim_string_iff [of cs "userClaim cp" u] by (auto simp: jwt_username_def split: option.splits)

lemma userinfo_username_iff:
  "userinfo_username cp cs = Inr u \<longleftrightarrow>
     map_of cs (userClaim cp) = Some (JString u) \<and> u \<noteq> [] \<and>
     (userClaim cp = ''email'' \<longrightarrow>
        claim cs ''email_verified'' \<noteq> JBool False \<and> claim cs ''email_verified'' \<noteq> JString ''false'')"
  using claim_string_iff [of cs "userClaim cp" u]
  by (auto simp: userinfo_username_def Let_def split: option.splits jval.splits)

section \<open>Properties\<close>

text \<open>
  The claims a JWT must carry: the user is the non-empty string in the configured
  claim; a configured audience is among the token's audiences in any of their encodings, a
  configured issuer is the token's issuer, and when the identity is the email, the token
  says explicitly that it is verified.
\<close>

lemma jwt_claims_required:
  "jwt_username cp cs = Inr u \<longleftrightarrow>
     (audience cp = [] \<or> (\<exists>raw. map_of cs ''aud'' = Some raw \<and> audience cp \<in> audiences raw)) \<and>
     (issuer cp = [] \<or> map_of cs ''iss'' = Some (JString (issuer cp))) \<and>
     map_of cs (userClaim cp) = Some (JString u) \<and> u \<noteq> [] \<and>
     (userClaim cp \<noteq> ''email'' \<or>
        (\<exists>v. map_of cs ''email_verified'' = Some v \<and> (v = JBool True \<or> v = JString ''true'')))"
  by (auto simp: jwt_username_iff audienceMatches_iff issuerMatches_iff emailVerified_iff claim_def
      split: option.splits)

text \<open>
  The UserInfo path is weaker: it takes the same user from every response a JWT with
  these claims would be accepted for, but it binds neither audience nor issuer, and it
  accepts an email whose verification the provider does not mention, which the JWT path
  rejects.
\<close>

lemma userinfo_weaker_than_jwt:
  "(jwt_username cp cs = Inr u \<longrightarrow> userinfo_username cp cs = Inr u) \<and>
   userinfo_username (cp\<lparr>audience := a, issuer := i\<rparr>) cs = userinfo_username cp cs \<and>
   (userClaim cp = ''email'' \<and> map_of cs ''email'' = Some (JString u) \<and> u \<noteq> [] \<and>
      map_of cs ''email_verified'' = None \<longrightarrow>
      userinfo_username cp cs = Inr u \<and> (\<exists>e. jwt_username cp cs = Inl e))"
proof (intro conjI impI)
  assume *: "userClaim cp = ''email'' \<and> map_of cs ''email'' = Some (JString u) \<and> u \<noteq> [] \<and>
      map_of cs ''email_verified'' = None"
  then show "userinfo_username cp cs = Inr u"
    by (simp add: userinfo_username_iff claim_def)
  have "\<not> jwt_username cp cs = Inr x" for x
    using * by (simp add: jwt_username_iff claim_def)
  then show "\<exists>e. jwt_username cp cs = Inl e" by (cases "jwt_username cp cs") auto
next
  show "userinfo_username (cp\<lparr>audience := a, issuer := i\<rparr>) cs = userinfo_username cp cs"
    by (simp add: userinfo_username_def cong: if_cong)
qed (auto simp: jwt_username_iff userinfo_username_iff emailVerified_iff)

end
