(* ===== verification/Go_Base64.thy ===== *)
theory Go_Base64
  imports Vault_Prelude
begin

text \<open>
  Base64 decoding as in Go's \<^verbatim>\<open>encoding/base64\<close>: the unpadded URL alphabet, which JSON web
  keys use, and the padded standard alphabet, which the ciphertexts of the key management
  services use. Line breaks are skipped anywhere and spare bits are ignored, as Go does.
  An encoder serves as the specification: decoding undoes it, whatever lines it is
  broken into.
\<close>

section \<open>Digits\<close>

text \<open>The value of a digit in the alphabet whose last two characters are \<open>c62\<close> and \<open>c63\<close>.\<close>

definition b64_value :: "char \<Rightarrow> char \<Rightarrow> char \<Rightarrow> nat option" where
  "b64_value c62 c63 c =
     (let n = of_char c :: nat
      in if 65 \<le> n \<and> n \<le> 90 then Some (n - 65)
         else if 97 \<le> n \<and> n \<le> 122 then Some (n - 71)
         else if 48 \<le> n \<and> n \<le> 57 then Some (n + 4)
         else if c = c62 then Some 62
         else if c = c63 then Some 63
         else None)"

text \<open>The first \<open>k\<close> bytes that a number of 24 bits holds.\<close>

definition bytes_of_24 :: "nat \<Rightarrow> nat \<Rightarrow> nat list" where
  "bytes_of_24 k v = take k [v div 65536 mod 256, v div 256 mod 256, v mod 256]"

definition line_break :: "char \<Rightarrow> bool" where
  "line_break c \<longleftrightarrow> c = CHR 0x0A \<or> c = CHR 0x0D"

section \<open>The decoders\<close>

text \<open>\<^verbatim>\<open>base64.RawURLEncoding.DecodeString\<close>; \<^term>\<open>None\<close> is its error.\<close>

fun b64_groups :: "nat list \<Rightarrow> nat list option" where
  "b64_groups [] = Some []"
| "b64_groups [a] = None"
| "b64_groups [a, b] = Some (bytes_of_24 1 (a * 262144 + b * 4096))"
| "b64_groups [a, b, c] = Some (bytes_of_24 2 (a * 262144 + b * 4096 + c * 64))"
| "b64_groups (a # b # c # d # rest) =
     map_option (append (bytes_of_24 3 (a * 262144 + b * 4096 + c * 64 + d))) (b64_groups rest)"

definition b64_decode :: "string \<Rightarrow> nat list option" where
  "b64_decode s =
     (let vs = map (b64_value (CHR ''-'') (CHR ''_'')) (filter (\<lambda>c. \<not> line_break c) s)
      in if None \<in> set vs then None else b64_groups (map the vs))"

text \<open>\<^verbatim>\<open>base64.StdEncoding.DecodeString\<close>: padding ends the input and is required.\<close>

definition pad_char :: char where
  "pad_char = CHR ''=''"

abbreviation std_value :: "char \<Rightarrow> nat option" where
  "std_value \<equiv> b64_value (CHR ''+'') (CHR 0x2F)"

fun std_groups :: "string \<Rightarrow> nat list option" where
  "std_groups [] = Some []"
| "std_groups (a # b # c # d # rest) =
     (if c = pad_char \<and> d = pad_char \<and> rest = [] then
        (case (std_value a, std_value b) of
           (Some x, Some y) \<Rightarrow> Some (bytes_of_24 1 (x * 262144 + y * 4096))
         | _ \<Rightarrow> None)
      else if d = pad_char \<and> rest = [] then
        (case (std_value a, std_value b, std_value c) of
           (Some x, Some y, Some z) \<Rightarrow> Some (bytes_of_24 2 (x * 262144 + y * 4096 + z * 64))
         | _ \<Rightarrow> None)
      else
        (case (std_value a, std_value b, std_value c, std_value d) of
           (Some x, Some y, Some z, Some w) \<Rightarrow>
             map_option (append (bytes_of_24 3 (x * 262144 + y * 4096 + z * 64 + w))) (std_groups rest)
         | _ \<Rightarrow> None))"
| "std_groups _ = None"

definition std_decode :: "string \<Rightarrow> bytes option" where
  "std_decode s = map_option (map char_of) (std_groups (filter (\<lambda>c. \<not> line_break c) s))"

section \<open>Encoding, as the specification\<close>

definition std_digit :: "nat \<Rightarrow> char" where
  "std_digit n =
     char_of (if n < 26 then n + 65 else if n < 52 then n + 71 else if n < 62 then n - 4
              else if n = 62 then 43 else 47)"

definition std_group :: "nat \<Rightarrow> nat \<Rightarrow> string" where
  "std_group k v =
     take k (map std_digit [v div 262144 mod 64, v div 4096 mod 64, v div 64 mod 64, v mod 64])"

fun std_encode_nats :: "nat list \<Rightarrow> string" where
  "std_encode_nats [] = []"
| "std_encode_nats [a] = std_group 2 (a * 65536) @ [pad_char, pad_char]"
| "std_encode_nats [a, b] = std_group 3 (a * 65536 + b * 256) @ [pad_char]"
| "std_encode_nats (a # b # c # rest) = std_group 4 (a * 65536 + b * 256 + c) @ std_encode_nats rest"

definition std_encode :: "bytes \<Rightarrow> string" where
  "std_encode bs = std_encode_nats (map of_char bs)"

text \<open>\<open>broken s t\<close>: \<open>t\<close> is \<open>s\<close> with line breaks inserted.\<close>

definition broken :: "string \<Rightarrow> string \<Rightarrow> bool" where
  "broken s t \<longleftrightarrow> filter (\<lambda>c. \<not> line_break c) t = s"

section \<open>Decoding undoes encoding\<close>

lemma of_char_eq: "c = d \<longleftrightarrow> (of_char c :: nat) = of_char d"
  by simp

lemma std_value_digit [simp]: "n < 64 \<Longrightarrow> std_value (std_digit n) = Some n"
  by (auto simp: b64_value_def std_digit_def Let_def of_char_eq)

lemma std_digit_not_pad [simp]: "n < 64 \<Longrightarrow> std_digit n \<noteq> pad_char"
  by (auto simp: std_digit_def pad_char_def of_char_eq)

lemma std_digit_not_break [simp]: "n < 64 \<Longrightarrow> \<not> line_break (std_digit n)"
  by (auto simp: std_digit_def line_break_def of_char_eq)

lemma pad_not_break [simp]: "\<not> line_break pad_char"
  by (simp add: line_break_def pad_char_def)

text \<open>Splitting a number of 24 bits into digits and putting it together again.\<close>

lemma digits_join:
  assumes "v < 16777216"
  shows "v div 262144 mod 64 * 262144 + v div 4096 mod 64 * 4096 + v div 64 mod 64 * 64 + v mod 64 =
     (v::nat)"
proof -
  have "v div 262144 < 64" using assms by (simp add: less_mult_imp_div_less)
  then have 1: "v div 262144 mod 64 = v div 262144" by simp
  have 2: "v div 4096 = v div 262144 * 64 + v div 4096 mod 64"
    using div_mult_mod_eq [of "v div 4096" 64] by (simp add: div_mult2_eq [symmetric])
  have 3: "v div 64 = v div 4096 * 64 + v div 64 mod 64"
    using div_mult_mod_eq [of "v div 64" 64] by (simp add: div_mult2_eq [symmetric])
  have 4: "v = v div 64 * 64 + v mod 64" by simp
  from 1 2 3 4 show ?thesis by linarith
qed

lemma bytes_join:
  assumes "a < 256" "b < 256" "c < 256"
  shows "bytes_of_24 3 (a * 65536 + b * 256 + c) = [a, b, c]"
proof -
  let ?v = "a * 65536 + b * 256 + c"
  have "?v = c + (a * 256 + b) * 256" by simp
  then have "?v mod 256 = c" using assms by (metis mod_less mod_mult_self1)
  moreover have "?v div 65536 = a" using assms by (intro div_nat_eqI) auto
  moreover have "?v div 256 = a * 256 + b" using assms by (intro div_nat_eqI) auto
  ultimately show ?thesis using assms by (simp add: bytes_of_24_def)
qed

lemma std_groups_4:
  assumes "x < 64" "y < 64" "z < 64" "w < 64"
  shows "std_groups (map std_digit [x, y, z, w] @ rest) =
    map_option (append (bytes_of_24 3 (x * 262144 + y * 4096 + z * 64 + w))) (std_groups rest)"
  using assms by simp

lemma std_groups_3:
  assumes "x < 64" "y < 64" "z < 64"
  shows "std_groups (map std_digit [x, y, z] @ [pad_char]) =
    Some (bytes_of_24 2 (x * 262144 + y * 4096 + z * 64))"
  using assms by simp

lemma std_groups_2:
  assumes "x < 64" "y < 64"
  shows "std_groups (map std_digit [x, y] @ [pad_char, pad_char]) =
    Some (bytes_of_24 1 (x * 262144 + y * 4096))"
  using assms by simp

lemma std_group_4:
  assumes "v < 16777216"
  shows "std_groups (std_group 4 v @ rest) = map_option (append (bytes_of_24 3 v)) (std_groups rest)"
proof -
  have "std_group 4 v = map std_digit [v div 262144 mod 64, v div 4096 mod 64, v div 64 mod 64, v mod 64]"
    by (simp add: std_group_def)
  then show ?thesis
    unfolding digits_join [OF assms, symmetric, THEN arg_cong [of _ _ "bytes_of_24 3"]]
    by (simp only: std_groups_4 mod_less_divisor zero_less_numeral)
qed

lemma std_group_3:
  assumes "v < 16777216" "v mod 64 = 0"
  shows "std_groups (std_group 3 v @ [pad_char]) = Some (bytes_of_24 2 v)"
proof -
  have "std_group 3 v = map std_digit [v div 262144 mod 64, v div 4096 mod 64, v div 64 mod 64]"
    by (simp add: std_group_def)
  moreover have "v div 262144 mod 64 * 262144 + v div 4096 mod 64 * 4096 + v div 64 mod 64 * 64 = v"
    using digits_join [OF assms(1)] unfolding assms(2) by (simp only: add_0_right)
  ultimately show ?thesis
    by (simp only: std_groups_3 mod_less_divisor zero_less_numeral)
qed

lemma std_group_2:
  assumes "v < 16777216" "v mod 64 = 0" "v div 64 mod 64 = 0"
  shows "std_groups (std_group 2 v @ [pad_char, pad_char]) = Some (bytes_of_24 1 v)"
proof -
  have "std_group 2 v = map std_digit [v div 262144 mod 64, v div 4096 mod 64]"
    by (simp add: std_group_def)
  moreover have "v div 262144 mod 64 * 262144 + v div 4096 mod 64 * 4096 = v"
    using digits_join [OF assms(1)] unfolding assms(2,3) by (simp only: mult_0 add_0_right)
  ultimately show ?thesis
    by (simp only: std_groups_2 mod_less_divisor zero_less_numeral)
qed

lemma bytes_of_24_take: "bytes_of_24 k v = take k (bytes_of_24 3 v)" if "k \<le> 3"
  using that by (simp add: bytes_of_24_def)

lemma std_groups_encode:
  "list_all (\<lambda>b. b < 256) bs \<Longrightarrow> std_groups (std_encode_nats bs) = Some bs"
proof (induction bs rule: std_encode_nats.induct)
  case (2 a)
  let ?v = "a * 65536"
  have "?v mod 64 = 0" by (simp add: mod_eq_0_iff_dvd dvd_mult)
  moreover have "?v div 64 = a * 1024" by simp
  then have "?v div 64 mod 64 = 0" by (simp add: mod_eq_0_iff_dvd dvd_mult)
  ultimately have "std_groups (std_encode_nats [a]) = Some (bytes_of_24 1 ?v)"
    using 2 by (simp only: std_encode_nats.simps) (rule std_group_2, auto)
  then show ?case
    using bytes_join [of a 0 0] 2 bytes_of_24_take [of 1 ?v] by simp
next
  case (3 a b)
  let ?v = "a * 65536 + b * 256"
  have "?v = (a * 1024 + b * 4) * 64" by simp
  then have "?v mod 64 = 0" by (metis mod_mult_self2_is_0)
  then have "std_groups (std_encode_nats [a, b]) = Some (bytes_of_24 2 ?v)"
    using 3 by (simp only: std_encode_nats.simps) (rule std_group_3, auto)
  then show ?case
    using bytes_join [of a b 0] 3 bytes_of_24_take [of 2 ?v] by simp
next
  case (4 a b c rest)
  then have "a * 65536 + b * 256 + c < 16777216" by simp
  with 4 show ?case
    by (simp add: std_group_4 bytes_join)
qed simp

lemma std_group_unbroken: "c \<in> set (std_group k v) \<Longrightarrow> \<not> line_break c"
  unfolding std_group_def by (drule in_set_takeD) auto

lemma std_encode_unbroken: "c \<in> set (std_encode_nats bs) \<Longrightarrow> \<not> line_break c"
  by (induction bs rule: std_encode_nats.induct) (auto dest: std_group_unbroken)

text \<open>Decoding an encoding gives the bytes back, also when it is broken into lines.\<close>

lemma std_decode_encode:
  assumes "broken (std_encode bs) t"
  shows "std_decode t = Some bs"
proof -
  have "list_all (\<lambda>b. b < 256) (map of_char bs :: nat list)"
    by (simp add: list_all_iff)
  from std_groups_encode [OF this] have "std_groups (std_encode bs) = Some (map of_char bs)"
    by (simp add: std_encode_def)
  with assms show ?thesis
    by (simp add: std_decode_def broken_def)
qed

end
