(* ===== verification/Jwks.thy ===== *)
theory Jwks
  imports Token_Claims Go_Base64 "HOL-Library.Word"
begin

text \<open>
  The RSA keys tokens are checked with (permissions.go): JWK decoding, the parsing of key
  sets, the key functions, and the cache of a remote key set with its refresh interval.
  Times and durations are integers in nanoseconds. PEM decoding, HTTP and the clock are
  parameters.
\<close>

section \<open>Integers of the Go library\<close>

text \<open>\<^verbatim>\<open>big.Int.SetBytes\<close>, and the low 64 bits that \<^verbatim>\<open>Int64\<close> returns.\<close>

definition be_nat :: "nat list \<Rightarrow> nat" where
  "be_nat bs = foldl (\<lambda>acc b. acc * 256 + b) 0 bs"

definition low64 :: "nat \<Rightarrow> 64 word" where
  "low64 n = word_of_nat n"

section \<open>Keys\<close>

text \<open>\<^verbatim>\<open>rsa.PublicKey\<close>: the exponent is a 64-bit \<^verbatim>\<open>int\<close>, read with \<^term>\<open>sint\<close>.\<close>

record rsa_key =
  rsa_N :: nat
  rsa_E :: "64 word"

record jwk =
  jwk_kty :: string
  jwk_kid :: string
  jwk_n :: string
  jwk_e :: string
  jwk_alg :: string
  jwk_use :: string

datatype jwks_error =
    UnsupportedKeyType string
  | BadModulus string
  | BadExponent string
  | BadJwksJson json_error
  | NoUsableKeys
  | FetchFailed string
  | BadStatus int
  | ReadBodyFailed string
  | KeyNotFound string
  | UnexpectedMethod string
  | MissingKid
  | PemFailed string
  | ManySources

text \<open>
  \<^verbatim>\<open>json.Unmarshal\<close> into a \<^verbatim>\<open>jwksResponse\<close>: the fields of an entry, the entries of the slice and
  the fields of the response. A repeated \<^verbatim>\<open>keys\<close> member decodes into the entries that the slice
  held before, and beyond its length into those its memory still holds (\<open>stale\<close>).
\<close>

definition zero_jwk :: jwk where
  "zero_jwk = \<lparr>jwk_kty = [], jwk_kid = [], jwk_n = [], jwk_e = [], jwk_alg = [], jwk_use = []\<rparr>"

definition jwk_setter :: "string \<Rightarrow> (string \<Rightarrow> jwk \<Rightarrow> jwk) option" where
  "jwk_setter k =
     (if is_field ''kty'' k then Some (\<lambda>s j. j\<lparr>jwk_kty := s\<rparr>)
      else if is_field ''kid'' k then Some (\<lambda>s j. j\<lparr>jwk_kid := s\<rparr>)
      else if is_field ''n'' k then Some (\<lambda>s j. j\<lparr>jwk_n := s\<rparr>)
      else if is_field ''e'' k then Some (\<lambda>s j. j\<lparr>jwk_e := s\<rparr>)
      else if is_field ''alg'' k then Some (\<lambda>s j. j\<lparr>jwk_alg := s\<rparr>)
      else if is_field ''use'' k then Some (\<lambda>s j. j\<lparr>jwk_use := s\<rparr>)
      else None)"

fun jwk_fields :: "(string \<times> jval) list \<Rightarrow> jwk \<Rightarrow> json_error + jwk" where
  "jwk_fields [] j = Inr j"
| "jwk_fields ((k, v) # rest) j =
     (case jwk_setter k of
        None \<Rightarrow> jwk_fields rest j
      | Some set_field \<Rightarrow>
          (case v of
             JString s \<Rightarrow> jwk_fields rest (set_field s j)
           | JNull \<Rightarrow> jwk_fields rest j
           | _ \<Rightarrow> Inl TypeMismatch))"

definition decode_jwk :: "jval \<Rightarrow> jwk \<Rightarrow> json_error + jwk" where
  "decode_jwk v old =
     (case v of JObject ms \<Rightarrow> jwk_fields ms old | JNull \<Rightarrow> Inr old | _ \<Rightarrow> Inl TypeMismatch)"

fun jwk_elements :: "jval list \<Rightarrow> jwk list \<Rightarrow> json_error + jwk list" where
  "jwk_elements [] old = Inr []"
| "jwk_elements (v # vs) old =
     (case decode_jwk v (case old of [] \<Rightarrow> zero_jwk | j # _ \<Rightarrow> j) of
        Inl e \<Rightarrow> Inl e
      | Inr j \<Rightarrow>
          (case jwk_elements vs (tl old) of
             Inl e \<Rightarrow> Inl e
           | Inr js \<Rightarrow> Inr (j # js)))"

fun jwks_fields :: "(string \<times> jval) list \<Rightarrow> jwk list \<Rightarrow> jwk list \<Rightarrow> json_error + jwk list" where
  "jwks_fields [] keys stale = Inr keys"
| "jwks_fields ((k, v) # rest) keys stale =
     (if is_field ''keys'' k then
        (case v of
           JArray vs \<Rightarrow>
             (case jwk_elements vs (keys @ stale) of
                Inl e \<Rightarrow> Inl e
              | Inr js \<Rightarrow> jwks_fields rest js (if vs = [] then [] else drop (length js) (keys @ stale)))
         | JNull \<Rightarrow> jwks_fields rest [] []
         | _ \<Rightarrow> Inl TypeMismatch)
      else jwks_fields rest keys stale)"

definition unmarshal_jwks :: "bytes \<Rightarrow> json_error + jwk list" where
  "unmarshal_jwks data =
     (case parse_json data of
        None \<Rightarrow> Inl InvalidJson
      | Some v \<Rightarrow>
          (case v of
             JObject ms \<Rightarrow> jwks_fields ms [] []
           | JNull \<Rightarrow> Inr []
           | _ \<Rightarrow> Inl TypeMismatch))"

definition parseRSAPublicKeyFromJWK :: "jwk \<Rightarrow> jwks_error + rsa_key" where
  "parseRSAPublicKeyFromJWK key =
     (if jwk_kty key \<noteq> ''RSA'' then Inl (UnsupportedKeyType (jwk_kty key))
      else (case b64_decode (jwk_n key) of
              None \<Rightarrow> Inl (BadModulus (jwk_kid key))
            | Some nBytes \<Rightarrow>
                (case b64_decode (jwk_e key) of
                   None \<Rightarrow> Inl (BadExponent (jwk_kid key))
                 | Some eBytes \<Rightarrow> Inr \<lparr>rsa_N = be_nat nBytes, rsa_E = low64 (be_nat eBytes)\<rparr>)))"

text \<open>The loop of \<^verbatim>\<open>parseJWKSKeys\<close>.\<close>

fun jwks_loop :: "jwk list \<Rightarrow> (string, rsa_key) gomap \<Rightarrow> jwks_error + (string, rsa_key) gomap" where
  "jwks_loop [] keys = Inr keys"
| "jwks_loop (key # rest) keys =
     (if jwk_kty key \<noteq> ''RSA'' then jwks_loop rest keys
      else if jwk_use key \<noteq> [] \<and> jwk_use key \<noteq> ''sig'' then jwks_loop rest keys
      else (case parseRSAPublicKeyFromJWK key of
              Inl e \<Rightarrow> Inl e
            | Inr pub \<Rightarrow>
                if jwk_kid key = [] then jwks_loop rest keys
                else jwks_loop rest (AList.update (jwk_kid key) pub keys)))"

definition parseJWKSKeys :: "bytes \<Rightarrow> jwks_error + (string, rsa_key) gomap" where
  "parseJWKSKeys data =
     (case unmarshal_jwks data of
        Inl e \<Rightarrow> Inl (BadJwksJson e)
      | Inr resp_keys \<Rightarrow>
          (case jwks_loop resp_keys [] of
             Inl e \<Rightarrow> Inl e
           | Inr keys \<Rightarrow> if keys = [] then Inl NoUsableKeys else Inr keys))"

section \<open>The cache of a remote key set\<close>

text \<open>
  The outside world: the clock, which the calls of \<^verbatim>\<open>time.Now\<close> read, and the HTTP client,
  which returns a status and what reading the body gives.
\<close>

record 's jwks_net =
  jn_clock :: "'s \<Rightarrow> int"
  jn_get :: "string \<Rightarrow> 's \<Rightarrow> (string + int \<times> (string + bytes)) \<times> 's"

record jwksCache =
  jc_url :: string
  jc_refresh :: int
  jc_keys :: "(string, rsa_key) gomap option"
  jc_lastFetch :: int

definition cached :: "jwksCache \<Rightarrow> int \<Rightarrow> string \<Rightarrow> rsa_key option" where
  "cached c now kid =
     (if jc_refresh c \<le> 0 then None
      else (case jc_keys c of
              None \<Rightarrow> None
            | Some ks \<Rightarrow>
                if jc_refresh c \<le> now - jc_lastFetch c then None
                else map_of ks kid))"

definition fetch :: "'s jwks_net \<Rightarrow> jwksCache \<Rightarrow> 's \<Rightarrow> (jwks_error + (string, rsa_key) gomap) \<times> 's" where
  "fetch J c s =
     (case jn_get J (jc_url c) s of
        (Inl e, s1) \<Rightarrow> (Inl (FetchFailed e), s1)
      | (Inr (status, body), s1) \<Rightarrow>
          if status \<noteq> 200 then (Inl (BadStatus status), s1)
          else (case body of
                  Inl e \<Rightarrow> (Inl (ReadBodyFailed e), s1)
                | Inr data \<Rightarrow> (parseJWKSKeys data, s1)))"

text \<open>
  \<^verbatim>\<open>getKey\<close>: a look into the cache under the read lock, then a second part that holds the write
  lock and looks again, because another call may have refreshed the cache in between. The
  parts are run one after the other here and interleaved in \<^verbatim>\<open>Key_Race\<close>.
\<close>

definition getKey_locked ::
    "'s jwks_net \<Rightarrow> string \<Rightarrow> jwksCache \<Rightarrow> 's \<Rightarrow> (jwks_error + rsa_key) \<times> jwksCache \<times> 's" where
  "getKey_locked J kid c s =
     (case cached c (jn_clock J s) kid of
        Some pub \<Rightarrow> (Inr pub, c, s)
      | None \<Rightarrow>
          (case fetch J c s of
             (Inl err, s1) \<Rightarrow>
               (case jc_keys c of
                  None \<Rightarrow> (Inl err, c, s1)
                | Some ks \<Rightarrow>
                    (case map_of ks kid of
                       Some pub \<Rightarrow> (Inr pub, c, s1)
                     | None \<Rightarrow> (Inl err, c, s1)))
           | (Inr keys, s1) \<Rightarrow>
               (let c1 = c\<lparr>jc_keys := Some keys, jc_lastFetch := jn_clock J s1\<rparr>
                in case map_of keys kid of
                     None \<Rightarrow> (Inl (KeyNotFound kid), c1, s1)
                   | Some pub \<Rightarrow> (Inr pub, c1, s1))))"

definition getKey ::
    "'s jwks_net \<Rightarrow> string \<Rightarrow> jwksCache \<Rightarrow> 's \<Rightarrow> (jwks_error + rsa_key) \<times> jwksCache \<times> 's" where
  "getKey J kid c s =
     (case cached c (jn_clock J s) kid of
        Some pub \<Rightarrow> (Inr pub, c, s)
      | None \<Rightarrow> getKey_locked J kid c s)"

section \<open>Key functions\<close>

text \<open>The closures the code builds, with the state they capture.\<close>

datatype keyfunc =
    PemKey rsa_key
  | JwksKeys "(string, rsa_key) gomap"
  | JwksRemote jwksCache

record token_header =
  th_rsa_method :: bool
  th_alg :: string
  th_kid :: jval

record JWTKeyConfig =
  PublicKeyPEM :: string
  JWKSURL :: string
  JWKSJSON :: string
  RefreshInterval :: int
  cfg_Audience :: string
  cfg_Issuer :: string

text \<open>The \<^verbatim>\<open>kid\<close> of a header, if it is a non-empty string.\<close>

definition header_kid :: "token_header \<Rightarrow> string option" where
  "header_kid h = (case as_string (th_kid h) of None \<Rightarrow> None | Some k \<Rightarrow> if k = [] then None else Some k)"

definition run_keyfunc ::
    "'s jwks_net \<Rightarrow> token_header \<Rightarrow> keyfunc \<times> 's \<Rightarrow> (jwks_error + rsa_key) \<times> keyfunc \<times> 's" where
  "run_keyfunc J h fs =
     (case fs of (f, s) \<Rightarrow>
        if \<not> th_rsa_method h then (Inl (UnexpectedMethod (th_alg h)), f, s)
        else (case f of
                PemKey pubKey \<Rightarrow> (Inr pubKey, f, s)
              | JwksKeys keys \<Rightarrow>
                  (case header_kid h of
                     None \<Rightarrow> (Inl MissingKid, f, s)
                   | Some kid \<Rightarrow>
                       (case map_of keys kid of
                          None \<Rightarrow> (Inl (KeyNotFound kid), f, s)
                        | Some pub \<Rightarrow> (Inr pub, f, s)))
              | JwksRemote c \<Rightarrow>
                  (case header_kid h of
                     None \<Rightarrow> (Inl MissingKid, f, s)
                   | Some kid \<Rightarrow>
                       (case getKey J kid c s of (r, c1, s1) \<Rightarrow> (r, JwksRemote c1, s1)))))"

text \<open>
  \<^verbatim>\<open>parseRSAPublicKey\<close>: the PEM decoder gives the bytes of the first block, the two parsers
  a key, which must be an RSA key (\<^term>\<open>None\<close> is another kind).
\<close>

record pem_lib =
  pem_decode :: "string \<Rightarrow> bytes option"
  parse_pkix :: "bytes \<Rightarrow> string + rsa_key option"
  parse_pkcs1 :: "bytes \<Rightarrow> string + rsa_key"

definition parseRSAPublicKey :: "pem_lib \<Rightarrow> string \<Rightarrow> jwks_error + rsa_key" where
  "parseRSAPublicKey P pemStr =
     (case pem_decode P pemStr of
        None \<Rightarrow> Inl (PemFailed ''failed to decode PEM block'')
      | Some block \<Rightarrow>
          (case parse_pkix P block of
             Inl e \<Rightarrow>
               (case parse_pkcs1 P block of
                  Inl e' \<Rightarrow> Inl (PemFailed e')
                | Inr k \<Rightarrow> Inr k)
           | Inr None \<Rightarrow> Inl (PemFailed ''not an RSA public key'')
           | Inr (Some k) \<Rightarrow> Inr k))"

text \<open>\<^verbatim>\<open>buildJWTKeyfunc\<close>: \<^term>\<open>None\<close> is the nil key function of a configuration without source.\<close>

definition buildJWTKeyfunc ::
    "pem_lib \<Rightarrow> JWTKeyConfig \<Rightarrow> jwks_error + keyfunc option" where
  "buildJWTKeyfunc P cfg =
     (let sourcesSet =
        (if PublicKeyPEM cfg \<noteq> [] then 1 else 0) + (if JWKSURL cfg \<noteq> [] then 1 else 0) +
        (if JWKSJSON cfg \<noteq> [] then 1 else (0::nat))
      in if sourcesSet = 0 then Inr None
         else if 1 < sourcesSet then Inl ManySources
         else if PublicKeyPEM cfg \<noteq> [] then
           (case parseRSAPublicKey P (PublicKeyPEM cfg) of
              Inl e \<Rightarrow> Inl e
            | Inr k \<Rightarrow> Inr (Some (PemKey k)))
         else if JWKSJSON cfg \<noteq> [] then
           (case parseJWKSKeys (JWKSJSON cfg) of
              Inl e \<Rightarrow> Inl e
            | Inr keys \<Rightarrow> Inr (Some (JwksKeys keys)))
         else Inr (Some (JwksRemote
           \<lparr>jc_url = JWKSURL cfg, jc_refresh = RefreshInterval cfg, jc_keys = None, jc_lastFetch = 0\<rparr>)))"

section \<open>Facts on keys\<close>

text \<open>A key of a set that the parser uses, and the last one with a given id.\<close>

definition usable :: "jwk \<Rightarrow> bool" where
  "usable j \<longleftrightarrow> jwk_kty j = ''RSA'' \<and> (jwk_use j = [] \<or> jwk_use j = ''sig'') \<and> jwk_kid j \<noteq> []"

definition last_usable :: "jwk list \<Rightarrow> string \<Rightarrow> jwk option" where
  "last_usable js kid = List.find (\<lambda>j. usable j \<and> jwk_kid j = kid) (rev js)"

definition key_of :: "jwk \<Rightarrow> rsa_key option" where
  "key_of j = (case parseRSAPublicKeyFromJWK j of Inl e \<Rightarrow> None | Inr k \<Rightarrow> Some k)"

lemma find_append: "List.find P (xs @ ys) = (case List.find P xs of None \<Rightarrow> List.find P ys | Some x \<Rightarrow> Some x)"
  by (induction xs) auto

lemma last_usable_Cons:
  "last_usable (j # js) kid =
     (case last_usable js kid of
        Some x \<Rightarrow> Some x
      | None \<Rightarrow> if usable j \<and> jwk_kid j = kid then Some j else None)"
  by (simp add: last_usable_def find_append split: option.splits)

lemma jwks_loop_lookup:
  "jwks_loop js keys = Inr keys' \<Longrightarrow>
     map_of keys' kid = (case last_usable js kid of None \<Rightarrow> map_of keys kid | Some j \<Rightarrow> key_of j)"
proof (induction js keys rule: jwks_loop.induct)
  case (2 j js keys)
  show ?case
  proof (cases "usable j")
    case True
    with "2.prems" obtain pub where pub: "parseRSAPublicKeyFromJWK j = Inr pub"
      and "jwks_loop js (AList.update (jwk_kid j) pub keys) = Inr keys'"
      by (auto simp: usable_def split: sum.splits if_splits)
    with 2 True show ?thesis
      by (auto simp: usable_def last_usable_Cons key_of_def map_of_update_iff split: option.splits)
  next
    case False
    with "2.prems" have "jwks_loop js keys = Inr keys'"
      by (auto simp: usable_def split: sum.splits if_splits)
    with 2 False show ?thesis
      by (auto simp: usable_def last_usable_Cons split: option.splits sum.splits if_splits)
  qed
qed (simp add: last_usable_def)

lemma parseJWKSKeys_lookup:
  assumes "parseJWKSKeys data = Inr keys"
  obtains js where "unmarshal_jwks data = Inr js"
    and "\<And>kid. map_of keys kid = (case last_usable js kid of None \<Rightarrow> None | Some j \<Rightarrow> key_of j)"
proof -
  from assms obtain js where js: "unmarshal_jwks data = Inr js" "jwks_loop js [] = Inr keys"
    by (auto simp: parseJWKSKeys_def split: sum.splits if_splits)
  show thesis
    by (rule that [OF js(1)]) (simp add: jwks_loop_lookup [OF js(2)] split: option.splits)
qed

text \<open>
  \<open>genuine url k\<close> says that \<open>k\<close> is a key of the provider behind \<open>url\<close>. Keys in a genuine
  cache are; \<open>trusts f k\<close> is the keys that a key function may hand out.
\<close>

definition cache_genuine :: "(string \<Rightarrow> rsa_key \<Rightarrow> bool) \<Rightarrow> jwksCache \<Rightarrow> bool" where
  "cache_genuine genuine c \<longleftrightarrow>
     (\<forall>ks kid k. jc_keys c = Some ks \<longrightarrow> map_of ks kid = Some k \<longrightarrow> genuine (jc_url c) k)"

fun keyfunc_genuine :: "(string \<Rightarrow> rsa_key \<Rightarrow> bool) \<Rightarrow> keyfunc \<Rightarrow> bool" where
  "keyfunc_genuine genuine (JwksRemote c) = cache_genuine genuine c"
| "keyfunc_genuine genuine f = True"

fun trusts :: "(string \<Rightarrow> rsa_key \<Rightarrow> bool) \<Rightarrow> keyfunc \<Rightarrow> rsa_key \<Rightarrow> bool" where
  "trusts genuine (PemKey p) k = (k = p)"
| "trusts genuine (JwksKeys ks) k = (\<exists>kid. map_of ks kid = Some k)"
| "trusts genuine (JwksRemote c) k = genuine (jc_url c) k"

text \<open>The trust in a key set endpoint: all keys it serves are genuine.\<close>

locale jwks_provider =
  fixes J :: "'s jwks_net"
    and genuine :: "string \<Rightarrow> rsa_key \<Rightarrow> bool"
  assumes served: "jn_get J url s = (Inr (200, Inr data), s') \<Longrightarrow>
      parseJWKSKeys data = Inr ks \<Longrightarrow> map_of ks kid = Some k \<Longrightarrow> genuine url k"
begin

lemma fetch_genuine:
  "fetch J c s = (Inr ks, s') \<Longrightarrow> map_of ks kid = Some k \<Longrightarrow> genuine (jc_url c) k"
  by (auto simp: fetch_def intro: served split: prod.splits sum.splits if_splits)

lemma getKey_locked_genuine:
  assumes "cache_genuine genuine c" "getKey_locked J kid c s = (r, c', s')"
  shows "cache_genuine genuine c'" and "jc_url c' = jc_url c" and "jc_refresh c' = jc_refresh c"
    and "r = Inr k \<Longrightarrow> genuine (jc_url c) k"
proof -
  have fresh: "cache_genuine genuine (c\<lparr>jc_keys := Some ks, jc_lastFetch := t\<rparr>)" if "fetch J c s = (Inr ks, s1)" for ks t s1
    using that fetch_genuine by (auto simp: cache_genuine_def)
  show "cache_genuine genuine c'" and "jc_url c' = jc_url c" and "jc_refresh c' = jc_refresh c"
    using assms fresh
    by (auto simp: getKey_locked_def Let_def split: option.splits sum.splits prod.splits)
  show "genuine (jc_url c) k" if "r = Inr k"
    using assms that fetch_genuine
    by (auto simp: getKey_locked_def Let_def cached_def cache_genuine_def
        split: option.splits sum.splits prod.splits if_splits)
qed

lemma cached_genuine: "cache_genuine genuine c \<Longrightarrow> cached c now kid = Some k \<Longrightarrow> genuine (jc_url c) k"
  by (auto simp: cached_def cache_genuine_def split: option.splits if_splits)

lemma getKey_genuine:
  assumes "cache_genuine genuine c" "getKey J kid c s = (r, c', s')"
  shows "cache_genuine genuine c'" and "jc_url c' = jc_url c" and "r = Inr k \<Longrightarrow> genuine (jc_url c) k"
  using assms getKey_locked_genuine cached_genuine by (auto simp: getKey_def split: option.splits)

lemma run_keyfunc_trusts:
  assumes "keyfunc_genuine genuine f" "run_keyfunc J h (f, s) = (r, f', s')"
  shows "keyfunc_genuine genuine f'" and "trusts genuine f' = trusts genuine f"
    and "r = Inr k \<Longrightarrow> trusts genuine f k \<and> th_rsa_method h"
proof -
  show "keyfunc_genuine genuine f'" and "trusts genuine f' = trusts genuine f"
    using assms getKey_genuine(1,2)
    by (auto simp: run_keyfunc_def fun_eq_iff split: keyfunc.splits option.splits prod.splits if_splits)
  show "trusts genuine f k \<and> th_rsa_method h" if "r = Inr k"
    using assms that getKey_genuine(3)
    by (auto simp: run_keyfunc_def split: keyfunc.splits option.splits prod.splits if_splits)
qed

end

section \<open>A reference provider\<close>

text \<open>
  An endpoint that serves the document its state names if it is one of the given ones, and
  fails otherwise; it meets the contract when every key of these documents is genuine.
\<close>

record ref_net =
  rn_clock :: int
  rn_serves :: "string option"

definition ref_jwks :: "bytes list \<Rightarrow> ref_net jwks_net" where
  "ref_jwks docs =
     \<lparr>jn_clock = rn_clock,
      jn_get = (\<lambda>url s. (case rn_serves s of
        None \<Rightarrow> Inl ''connection refused''
      | Some d \<Rightarrow> Inr (if d \<in> set docs then 200 else 404, Inr d), s))\<rparr>"

definition ref_genuine :: "bytes list \<Rightarrow> string \<Rightarrow> rsa_key \<Rightarrow> bool" where
  "ref_genuine docs url k \<longleftrightarrow>
     (\<exists>d \<in> set docs. \<exists>ks kid. parseJWKSKeys d = Inr ks \<and> map_of ks kid = Some k)"

lemma last_usable_mem: "last_usable js kid = Some j \<Longrightarrow> j \<in> set js \<and> usable j \<and> jwk_kid j = kid"
  by (auto simp: last_usable_def find_Some_iff) (metis nth_mem set_rev length_rev)

interpretation ref_jwks: jwks_provider "ref_jwks docs" "ref_genuine docs" for docs
  by unfold_locales (auto simp: ref_jwks_def ref_genuine_def split: option.splits if_splits)

section \<open>Properties\<close>

text \<open>
  (C37) The keys of a key set: a non-empty id selects the last RSA entry with that id that is
  meant for signatures, decoded; entries for encryption, of other types or without an id
  never verify anything, and a set without a usable entry is refused.
\<close>

theorem parseJWKSKeys_selects:
  assumes "parseJWKSKeys data = Inr keys"
  shows "\<exists>js. unmarshal_jwks data = Inr js \<and> keys \<noteq> [] \<and>
    (\<forall>kid k. map_of keys kid = Some k \<longleftrightarrow>
       (\<exists>j. last_usable js kid = Some j \<and> parseRSAPublicKeyFromJWK j = Inr k)) \<and>
    (\<forall>j. last_usable js [] \<noteq> Some j)"
proof -
  obtain js where js: "unmarshal_jwks data = Inr js"
    and look: "\<And>kid. map_of keys kid = (case last_usable js kid of None \<Rightarrow> None | Some j \<Rightarrow> key_of j)"
    using assms by (rule parseJWKSKeys_lookup) blast
  have "map_of keys kid = Some k \<longleftrightarrow>
      (\<exists>j. last_usable js kid = Some j \<and> parseRSAPublicKeyFromJWK j = Inr k)" for kid k
    unfolding look by (auto simp: key_of_def split: option.splits sum.splits)
  moreover have "last_usable js [] \<noteq> Some j" for j
    using last_usable_mem [of js "[]" j] by (auto simp: usable_def)
  moreover have "keys \<noteq> []"
    using assms by (auto simp: parseJWKSKeys_def split: sum.splits if_splits)
  ultimately show ?thesis using js by blast
qed

definition sig_key :: jwk where
  "sig_key = \<lparr>jwk_kty = ''RSA'', jwk_kid = ''k1'', jwk_n = ''xw'', jwk_e = ''AQAB'', jwk_alg = ''RS256'', jwk_use = ''sig''\<rparr>"

definition enc_key :: jwk where
  "enc_key = sig_key\<lparr>jwk_kid := ''k2'', jwk_use := ''enc''\<rparr>"

definition jwk_json :: "jwk \<Rightarrow> jval" where
  "jwk_json j = JObject [(''kty'', JString (jwk_kty j)), (''kid'', JString (jwk_kid j)), (''n'', JString (jwk_n j)),
     (''e'', JString (jwk_e j)), (''alg'', JString (jwk_alg j)), (''use'', JString (jwk_use j))]"

definition key_set :: bytes where
  "key_set = json_text (JObject [(''keys'', JArray [jwk_json enc_key, jwk_json sig_key])])"

lemma key_set_read: "unmarshal_jwks key_set = Inr [enc_key, sig_key]"
  by code_simp

lemma sig_key_decoded: "parseRSAPublicKeyFromJWK sig_key = Inr \<lparr>rsa_N = 199, rsa_E = 65537\<rparr>"
  by (simp add: parseRSAPublicKeyFromJWK_def sig_key_def b64_decode_def b64_value_def line_break_def bytes_of_24_def
      be_nat_def low64_def)

lemma key_set_parsed: "parseJWKSKeys key_set = Inr [(''k1'', \<lparr>rsa_N = 199, rsa_E = 65537\<rparr>)]"
proof -
  have "jwks_loop [enc_key, sig_key] [] = Inr [(''k1'', \<lparr>rsa_N = 199, rsa_E = 65537\<rparr>)]"
    using sig_key_decoded by (simp add: enc_key_def sig_key_def)
  then show ?thesis by (simp add: parseJWKSKeys_def key_set_read)
qed

theorem parseJWKSKeys_selects_witness:
  "\<exists>keys. parseJWKSKeys key_set = Inr keys \<and>
     map_of keys ''k1'' = Some \<lparr>rsa_N = 199, rsa_E = 65537\<rparr> \<and> map_of keys ''k2'' = None"
proof -
  have k1: "last_usable [enc_key, sig_key] ''k1'' = Some sig_key"
    and k2: "last_usable [enc_key, sig_key] ''k2'' = None"
    by code_simp+
  note p = sig_key_decoded
  from key_set_parsed obtain keys where keys: "parseJWKSKeys key_set = Inr keys" by blast
  from parseJWKSKeys_selects [OF keys] key_set_read
  have sel: "\<forall>kid k. map_of keys kid = Some k \<longleftrightarrow>
      (\<exists>j. last_usable [enc_key, sig_key] kid = Some j \<and> parseRSAPublicKeyFromJWK j = Inr k)"
    by (metis sum.inject(2))
  have 1: "map_of keys ''k1'' = Some \<lparr>rsa_N = 199, rsa_E = 65537\<rparr>"
    by (rule sel [rule_format, THEN iffD2]) (use k1 p in blast)
  have 2: "map_of keys ''k2'' = None"
  proof (cases "map_of keys ''k2''")
    case (Some k)
    then obtain j where "last_usable [enc_key, sig_key] ''k2'' = Some j" using sel by blast
    with k2 show ?thesis by simp
  qed
  from keys 1 2 show ?thesis by blast
qed

text \<open>
  The exponent of a key is exact below $2^{63}$; a longer one is not refused but
  silently reduced to its low 64 bits, so it can even read as a negative number.
\<close>

lemma jwk_exponent_width:
  assumes "parseRSAPublicKeyFromJWK j = Inr k" and "b64_decode (jwk_e j) = Some bs"
  shows "uint (rsa_E k) = int (be_nat bs) mod 2 ^ 64 \<and>
    (be_nat bs < 2 ^ 63 \<longrightarrow> sint (rsa_E k) = int (be_nat bs)) \<and>
    (be_nat bs = 2 ^ 63 \<longrightarrow> sint (rsa_E k) < 0)"
proof -
  have e: "rsa_E k = word_of_nat (be_nat bs)"
    using assms by (auto simp: parseRSAPublicKeyFromJWK_def low64_def split: if_splits option.splits)
  have "signed_take_bit 63 (int n) = int n" if "n < 2 ^ 63" for n
    using that by (intro signed_take_bit_int_eq_self) auto
  moreover have "signed_take_bit 63 (2 ^ 63 :: int) < 0"
    by (simp add: signed_take_bit_def)
  ultimately show ?thesis
    unfolding e by (auto simp: unsigned_of_nat take_bit_eq_mod signed_of_nat zmod_int)
qed

text \<open>
  Where a key from the cache of a remote key set comes from: from the set held before,
  if that is younger than the refresh interval or the fetch failed, or else from the set
  just fetched, which is then held with the time of the fetch. After the interval, with
  the endpoint answering, a key that was withdrawn is refused.
\<close>

lemma getKey_source:
  assumes "getKey J kid c s = (Inr k, c', s')"
  shows "(\<exists>ks. jc_keys c = Some ks \<and> map_of ks kid = Some k \<and> c' = c \<and>
            (0 < jc_refresh c \<and> jn_clock J s - jc_lastFetch c < jc_refresh c \<and> s' = s \<or>
             (\<exists>e. fetch J c s = (Inl e, s')))) \<or>
         (\<exists>ks. fetch J c s = (Inr ks, s') \<and> map_of ks kid = Some k \<and>
            c' = c\<lparr>jc_keys := Some ks, jc_lastFetch := jn_clock J s'\<rparr>)"
  using assms
  by (auto simp: getKey_def getKey_locked_def cached_def Let_def split: if_splits option.splits prod.splits sum.splits)

text \<open>
  Absent keys are not remembered: a token whose key id is not in a fresh cache makes
  the server fetch the key set, every time, and the cache is replaced if that succeeds.
  Since the id is read from the unverified header, any caller can cause a fetch.
\<close>

lemma getKey_unknown_kid_fetches:
  assumes "jc_keys c = Some ks" "map_of ks kid = None" "fetch J c s = (r, s')"
  shows "\<exists>c'. getKey J kid c s =
    ((case r of
        Inl e \<Rightarrow> Inl e
      | Inr keys \<Rightarrow> (case map_of keys kid of None \<Rightarrow> Inl (KeyNotFound kid) | Some k \<Rightarrow> Inr k)), c', s')"
  using assms
  by (auto simp: getKey_def getKey_locked_def cached_def Let_def split: sum.splits option.splits)

end
