(* ===== verification/Key_Race.thy ===== *)
theory Key_Race
  imports Jwks
begin

text \<open>
  Concurrent lookups in the cache of a remote key set (permissions.go: \<^verbatim>\<open>getKey\<close>). A lookup
  reads the cache under the read lock, lets go of it, and does the rest under the write
  lock; any number of lookups, numbered by \<open>nat\<close>, interleave at this point, and time may
  pass. A lookup that holds the write lock is alone, so its part is one step.
\<close>

section \<open>The step relation\<close>

datatype lookup =
    Idle
  | Waiting string
  | Answered "jwks_error + rsa_key"

text \<open>
  The log is a history variable: one entry for every key set that was installed, with the
  key id it was fetched for, the time at which the second look failed, the set, and the
  time of the installation.
\<close>

record refreshed =
  rf_kid :: string
  rf_missed :: int
  rf_keys :: "(string, rsa_key) gomap"
  rf_time :: int

record 's key_race =
  kr_cache :: jwksCache
  kr_lookups :: "nat \<Rightarrow> lookup"
  kr_world :: 's
  kr_log :: "refreshed list"

text \<open>What the locked part adds to the log.\<close>

definition logged :: "'s jwks_net \<Rightarrow> string \<Rightarrow> jwksCache \<Rightarrow> 's \<Rightarrow> refreshed list" where
  "logged J kid c s =
     (case cached c (jn_clock J s) kid of
        Some pub \<Rightarrow> []
      | None \<Rightarrow>
          (case fetch J c s of
             (Inl e, s1) \<Rightarrow> []
           | (Inr keys, s1) \<Rightarrow>
               [\<lparr>rf_kid = kid, rf_missed = jn_clock J s, rf_keys = keys, rf_time = jn_clock J s1\<rparr>]))"

inductive key_step :: "'s jwks_net \<Rightarrow> 's key_race \<Rightarrow> 's key_race \<Rightarrow> bool"
  for J :: "'s jwks_net" where
  hit: "kr_lookups r t = Idle \<Longrightarrow> cached (kr_cache r) (jn_clock J (kr_world r)) kid = Some pub \<Longrightarrow>
    key_step J r (r\<lparr>kr_lookups := (kr_lookups r)(t := Answered (Inr pub))\<rparr>)"
| miss: "kr_lookups r t = Idle \<Longrightarrow> cached (kr_cache r) (jn_clock J (kr_world r)) kid = None \<Longrightarrow>
    key_step J r (r\<lparr>kr_lookups := (kr_lookups r)(t := Waiting kid)\<rparr>)"
| locked: "kr_lookups r t = Waiting kid \<Longrightarrow>
    getKey_locked J kid (kr_cache r) (kr_world r) = (res, c', s') \<Longrightarrow>
    key_step J r (r\<lparr>kr_lookups := (kr_lookups r)(t := Answered res), kr_cache := c', kr_world := s',
      kr_log := kr_log r @ logged J kid (kr_cache r) (kr_world r)\<rparr>)"
| passes: "jn_clock J (kr_world r) \<le> jn_clock J s' \<Longrightarrow> key_step J r (r\<lparr>kr_world := s'\<rparr>)"

text \<open>The start: the cache as \<^verbatim>\<open>newJWKSKeyfunc\<close> makes it.\<close>

definition key_start :: "string \<Rightarrow> int \<Rightarrow> 's \<Rightarrow> 's key_race" where
  "key_start url refresh s =
     \<lparr>kr_cache = \<lparr>jc_url = url, jc_refresh = refresh, jc_keys = None, jc_lastFetch = 0\<rparr>,
      kr_lookups = (\<lambda>_. Idle), kr_world = s, kr_log = []\<rparr>"

inductive key_run :: "'s jwks_net \<Rightarrow> 's key_race \<Rightarrow> 's key_race \<Rightarrow> bool"
  for J :: "'s jwks_net" where
  stay: "key_run J r r"
| more: "key_run J r r' \<Longrightarrow> key_step J r' r'' \<Longrightarrow> key_run J r r''"

section \<open>Trust\<close>

text \<open>Every answer is a key of the provider.\<close>

definition answers_genuine :: "(string \<Rightarrow> rsa_key \<Rightarrow> bool) \<Rightarrow> 's key_race \<Rightarrow> bool" where
  "answers_genuine genuine r \<longleftrightarrow>
     cache_genuine genuine (kr_cache r) \<and>
     (\<forall>t k. kr_lookups r t = Answered (Inr k) \<longrightarrow> genuine (jc_url (kr_cache r)) k)"


context jwks_provider
begin

lemma key_step_genuine:
  "key_step J r r' \<Longrightarrow> answers_genuine genuine r \<Longrightarrow>
    answers_genuine genuine r' \<and> jc_url (kr_cache r') = jc_url (kr_cache r)"
proof (induction rule: key_step.induct)
  case (hit r t kid pub)
  then show ?case by (auto simp: answers_genuine_def dest: cached_genuine)
next
  case (locked r t kid res c' s')
  then have c: "cache_genuine genuine (kr_cache r)" by (simp add: answers_genuine_def)
  show ?case
    using getKey_locked_genuine [OF c locked.hyps(2)] locked.prems by (auto simp: answers_genuine_def)
qed (auto simp: answers_genuine_def)

lemma key_run_genuine:
  "key_run J r r' \<Longrightarrow> answers_genuine genuine r \<Longrightarrow>
    answers_genuine genuine r' \<and> jc_url (kr_cache r') = jc_url (kr_cache r)"
  by (induction rule: key_run.induct) (auto dest: key_step_genuine)

end

lemma answers_genuine_start: "answers_genuine genuine (key_start url d s)"
  by (simp add: answers_genuine_def key_start_def cache_genuine_def)

section \<open>One fetch per interval\<close>

text \<open>The contract on time: a request does not turn the clock back.\<close>

locale jwks_clock =
  fixes J :: "'s jwks_net"
  assumes get_time: "jn_get J url s = (r, s') \<Longrightarrow> jn_clock J s \<le> jn_clock J s'"
begin

lemma fetch_time: "fetch J c s = (r, s') \<Longrightarrow> jn_clock J s \<le> jn_clock J s'"
  by (auto simp: fetch_def split: prod.splits sum.splits if_splits dest: get_time)

lemma locked_time: "getKey_locked J kid c s = (r, c', s') \<Longrightarrow> jn_clock J s \<le> jn_clock J s'"
  by (auto simp: getKey_locked_def Let_def split: prod.splits sum.splits option.splits dest: fetch_time)

lemma key_step_time: "key_step J r r' \<Longrightarrow> jn_clock J (kr_world r) \<le> jn_clock J (kr_world r')"
  by (induction rule: key_step.induct) (auto dest: locked_time)

lemma key_run_time: "key_run J r r' \<Longrightarrow> jn_clock J (kr_world r) \<le> jn_clock J (kr_world r')"
  by (induction rule: key_run.induct) (auto dest: key_step_time)

end

text \<open>
  A set that replaces one with the wanted key comes at least \<open>d\<close> after it.
\<close>

definition after_interval :: "int \<Rightarrow> refreshed \<Rightarrow> refreshed \<Rightarrow> bool" where
  "after_interval d e f \<longleftrightarrow> (map_of (rf_keys e) (rf_kid f) \<noteq> None \<longrightarrow> rf_time e + d \<le> rf_missed f)"

definition spaced :: "int \<Rightarrow> refreshed list \<Rightarrow> bool" where
  "spaced d log = successively (after_interval d) log"

lemma spaced_snoc:
  "spaced d (log @ [f]) \<longleftrightarrow> spaced d log \<and> (log \<noteq> [] \<longrightarrow> after_interval d (last log) f)"
  by (auto simp: spaced_def successively_append_iff)

text \<open>
  The log describes the cache: its last entry is what the cache holds, and its times have
  passed, in order.
\<close>

definition log_inv :: "'s jwks_net \<Rightarrow> int \<Rightarrow> int \<Rightarrow> 's key_race \<Rightarrow> bool" where
  "log_inv J d start r \<longleftrightarrow>
     jc_refresh (kr_cache r) = d \<and>
     jc_keys (kr_cache r) = (if kr_log r = [] then None else Some (rf_keys (last (kr_log r)))) \<and>
     (kr_log r \<noteq> [] \<longrightarrow> jc_lastFetch (kr_cache r) = rf_time (last (kr_log r))) \<and>
     (\<forall>e \<in> set (kr_log r). start \<le> rf_missed e \<and> rf_missed e \<le> rf_time e \<and>
        rf_time e \<le> jn_clock J (kr_world r)) \<and>
     spaced d (kr_log r)"

lemma log_inv_start: "log_inv J d start (key_start url d s)"
  by (simp add: log_inv_def key_start_def spaced_def)

text \<open>A second look that fails although the cache has the key means that the cache is old.\<close>

lemma missed_old:
  assumes "cached c now kid = None" "jc_keys c = Some ks" "map_of ks kid \<noteq> None" "0 < jc_refresh c"
  shows "jc_lastFetch c + jc_refresh c \<le> now"
  using assms by (auto simp: cached_def split: if_splits)

lemma logged_Cons:
  assumes "logged J kid c s = e # es"
  obtains ks s1 where "cached c (jn_clock J s) kid = None" "fetch J c s = (Inr ks, s1)" "es = []"
    "e = \<lparr>rf_kid = kid, rf_missed = jn_clock J s, rf_keys = ks, rf_time = jn_clock J s1\<rparr>"
  using assms by (auto simp: logged_def split: option.splits prod.splits sum.splits)

lemma locked_fetched:
  assumes "cached c (jn_clock J s) kid = None" "fetch J c s = (Inr ks, s1)"
    and "getKey_locked J kid c s = (res, c', s')"
  shows "c' = c\<lparr>jc_keys := Some ks, jc_lastFetch := jn_clock J s1\<rparr> \<and> s' = s1"
  using assms by (auto simp: getKey_locked_def Let_def split: option.splits)

context jwks_clock
begin

lemma log_inv_locked:
  assumes inv: "log_inv J d start r" and d: "0 < d" and start: "start \<le> jn_clock J (kr_world r)"
    and lk: "getKey_locked J kid (kr_cache r) (kr_world r) = (res, c', s')"
  shows "log_inv J d start (r\<lparr>kr_lookups := f, kr_cache := c', kr_world := s',
    kr_log := kr_log r @ logged J kid (kr_cache r) (kr_world r)\<rparr>)"
proof (cases "logged J kid (kr_cache r) (kr_world r)")
  case Nil
  then have "c' = kr_cache r"
    using lk by (auto simp: logged_def getKey_locked_def split: option.splits prod.splits sum.splits)
  then show ?thesis
    using inv Nil locked_time [OF lk] by (auto simp: log_inv_def)
next
  case (Cons e es)
  then obtain ks s1 where miss: "cached (kr_cache r) (jn_clock J (kr_world r)) kid = None"
    and ks1: "fetch J (kr_cache r) (kr_world r) = (Inr ks, s1)" and es: "es = []"
    and e1: "e = \<lparr>rf_kid = kid, rf_missed = jn_clock J (kr_world r), rf_keys = ks, rf_time = jn_clock J s1\<rparr>"
    by (rule logged_Cons)
  from locked_fetched [OF miss ks1 lk]
  have s': "s1 = s'" and c': "c' = (kr_cache r)\<lparr>jc_keys := Some ks, jc_lastFetch := jn_clock J s'\<rparr>"
    by simp_all
  note ks = ks1 [unfolded s'] and e = e1 [unfolded s'] es
  have "rf_time (last (kr_log r)) + d \<le> jn_clock J (kr_world r)"
    if "kr_log r \<noteq> []" "map_of (rf_keys (last (kr_log r))) kid \<noteq> None"
    using missed_old [OF miss] inv d that by (auto simp: log_inv_def)
  then have "spaced d (kr_log r @ [e])"
    using inv e by (simp add: log_inv_def spaced_snoc after_interval_def)
  moreover have "\<forall>e \<in> set (kr_log r). rf_time e \<le> jn_clock J s'"
    using inv fetch_time [OF ks] by (fastforce simp: log_inv_def)
  ultimately show ?thesis
    using inv fetch_time [OF ks] start Cons e c' by (auto simp: log_inv_def)
qed

lemma key_run_log_inv:
  assumes "key_run J (key_start url d s) r" "0 < d"
  shows "log_inv J d (jn_clock J s) r"
  using assms
proof (induction "key_start url d s" r rule: key_run.induct)
  case stay
  show ?case by (rule log_inv_start)
next
  case (more r' r'')
  then have inv: "log_inv J d (jn_clock J s) r'" by simp
  have start: "jn_clock J s \<le> jn_clock J (kr_world r')"
    using key_run_time [OF more.hyps(1)] by (simp add: key_start_def)
  from more.hyps(3) show ?case
  proof (cases rule: key_step.cases)
    case (locked t kid res c' s')
    then show ?thesis using log_inv_locked [OF inv more.prems start] by simp
  next
    case (passes s')
    then show ?thesis using inv by (fastforce simp: log_inv_def)
  qed (use inv in \<open>simp_all add: log_inv_def\<close>)
qed

end

text \<open>If every wanted key is in every set, the sets are at least \<open>d\<close> apart, all of them.\<close>

definition all_found :: "refreshed list \<Rightarrow> bool" where
  "all_found log \<longleftrightarrow> (\<forall>e \<in> set log. \<forall>f \<in> set log. map_of (rf_keys e) (rf_kid f) \<noteq> None)"

lemma spaced_span:
  assumes "spaced d log" "all_found log" "\<forall>e \<in> set log. rf_missed e \<le> rf_time e" "log \<noteq> []"
  shows "rf_time (hd log) + int (length log - 1) * d \<le> rf_time (last log)"
  using assms
proof (induction log rule: rev_induct)
  case (snoc f log)
  show ?case
  proof (cases "log = []")
    case False
    have f: "after_interval d (last log) f" and sp: "spaced d log"
      using snoc.prems(1) False by (simp_all add: spaced_snoc)
    have "map_of (rf_keys (last log)) (rf_kid f) \<noteq> None"
      using snoc.prems(2) False unfolding all_found_def
      by (metis Un_iff last_in_set list.set_intros(1) set_append)
    with f have "rf_time (last log) + d \<le> rf_missed f" by (simp add: after_interval_def)
    moreover have "rf_missed f \<le> rf_time f" using snoc.prems(3) by simp
    moreover have "rf_time (hd log) + int (length log - 1) * d \<le> rf_time (last log)"
      using snoc.IH [OF sp _ _ False] snoc.prems(2,3) by (simp add: all_found_def)
    moreover have "int (length log) * d = int (length log - 1) * d + d"
      using False by (cases log) (simp_all add: distrib_right)
    ultimately show ?thesis using False by simp
  qed simp
qed simp

section \<open>The sequential call is a run\<close>

lemma getKey_is_run:
  assumes "getKey J kid c s = (res, c', s')" and "kr_lookups r t = Idle"
    and "kr_cache r = c" "kr_world r = s"
  shows "\<exists>log. key_run J r (r\<lparr>kr_lookups := (kr_lookups r)(t := Answered res), kr_cache := c',
    kr_world := s', kr_log := log\<rparr>)"
proof (cases "cached c (jn_clock J s) kid")
  case None
  let ?r1 = "r\<lparr>kr_lookups := (kr_lookups r)(t := Waiting kid)\<rparr>"
  have "key_step J r ?r1"
    using None assms by (intro key_step.miss) auto
  moreover have "key_step J ?r1 (?r1\<lparr>kr_lookups := (kr_lookups ?r1)(t := Answered res), kr_cache := c',
      kr_world := s', kr_log := kr_log ?r1 @ logged J kid (kr_cache ?r1) (kr_world ?r1)\<rparr>)"
    using None assms by (intro key_step.locked) (auto simp: getKey_def)
  ultimately have "key_run J r (?r1\<lparr>kr_lookups := (kr_lookups ?r1)(t := Answered res), kr_cache := c',
      kr_world := s', kr_log := kr_log ?r1 @ logged J kid (kr_cache ?r1) (kr_world ?r1)\<rparr>)"
    by (blast intro: key_run.intros)
  then show ?thesis by auto
next
  case (Some pub)
  then have "res = Inr pub" "c' = c" "s' = s"
    using assms(1) by (auto simp: getKey_def)
  moreover have "key_step J r (r\<lparr>kr_lookups := (kr_lookups r)(t := Answered (Inr pub))\<rparr>)"
    using Some assms by (intro key_step.hit) auto
  ultimately have "key_run J r (r\<lparr>kr_lookups := (kr_lookups r)(t := Answered res), kr_cache := c',
      kr_world := s', kr_log := kr_log r\<rparr>)"
    using assms(3,4) by (cases r) (auto intro: key_run.intros)
  then show ?thesis by blast
qed

section \<open>Properties\<close>

interpretation ref_clock: jwks_clock "ref_jwks docs" for docs
  by unfold_locales (auto simp: ref_jwks_def)

text \<open>
  (C28) Concurrent lookups: however many calls of \<^verbatim>\<open>getKey\<close> interleave, every key they answer
  is one the provider serves; and as long as the wanted keys are in the sets served, the
  calls install at most one set per refresh interval, however many of them found the
  cache empty or old at the same time.
\<close>

theorem getKey_concurrent:
  assumes "jwks_provider J genuine" "jwks_clock J" "key_run J (key_start url d s) r"
  shows "(\<forall>t k. kr_lookups r t = Answered (Inr k) \<longrightarrow> genuine url k) \<and>
    (0 < d \<longrightarrow> all_found (kr_log r) \<longrightarrow>
       int (length (kr_log r) - 1) * d \<le> jn_clock J (kr_world r) - jn_clock J s)"
proof (intro conjI impI)
  have "answers_genuine genuine r \<and> jc_url (kr_cache r) = jc_url (kr_cache (key_start url d s))"
    using jwks_provider.key_run_genuine [OF assms(1,3) answers_genuine_start] by blast
  then show "\<forall>t k. kr_lookups r t = Answered (Inr k) \<longrightarrow> genuine url k"
    by (auto simp: answers_genuine_def key_start_def)
next
  assume d: "0 < d" and found: "all_found (kr_log r)"
  note inv = jwks_clock.key_run_log_inv [OF assms(2,3) d]
  show "int (length (kr_log r) - 1) * d \<le> jn_clock J (kr_world r) - jn_clock J s"
  proof (cases "kr_log r = []")
    case True
    then show ?thesis
      using jwks_clock.key_run_time [OF assms(2,3)] by (simp add: key_start_def)
  next
    case False
    have times: "\<forall>e \<in> set (kr_log r). jn_clock J s \<le> rf_missed e \<and> rf_missed e \<le> rf_time e \<and>
        rf_time e \<le> jn_clock J (kr_world r)" and sp: "spaced d (kr_log r)"
      using inv by (auto simp: log_inv_def)
    have "rf_time (hd (kr_log r)) + int (length (kr_log r) - 1) * d \<le> rf_time (last (kr_log r))"
      using spaced_span [OF sp found _ False] times by blast
    moreover have "jn_clock J s \<le> rf_time (hd (kr_log r))"
      using times False by (meson hd_in_set order_trans)
    moreover have "rf_time (last (kr_log r)) \<le> jn_clock J (kr_world r)"
      using times False by simp
    ultimately show ?thesis by linarith
  qed
qed

text \<open>Two lookups that both find the cache empty fetch once.\<close>

definition idp_net :: ref_net where
  "idp_net = \<lparr>rn_clock = 1000, rn_serves = Some key_set\<rparr>"

definition idp_key :: rsa_key where
  "idp_key = \<lparr>rsa_N = 199, rsa_E = 65537\<rparr>"

lemma idp_fetch: "jc_url c = u \<Longrightarrow> fetch (ref_jwks [key_set]) c idp_net = (Inr [(''k1'', idp_key)], idp_net)"
  using key_set_parsed by (simp add: fetch_def ref_jwks_def idp_net_def idp_key_def)

theorem getKey_concurrent_witness:
  "\<exists>r. key_run (ref_jwks [key_set]) (key_start ''u'' 300 idp_net) r \<and>
     kr_lookups r 0 = Answered (Inr idp_key) \<and> kr_lookups r 1 = Answered (Inr idp_key) \<and>
     ref_genuine [key_set] ''u'' idp_key \<and> length (kr_log r) = 1 \<and>
     int (length (kr_log r) - 1) * 300 \<le> jn_clock (ref_jwks [key_set]) (kr_world r) - 1000"
proof -
  let ?J = "ref_jwks [key_set]" and ?c0 = "\<lparr>jc_url = ''u'', jc_refresh = 300, jc_keys = None, jc_lastFetch = 0\<rparr>"
  let ?c1 = "\<lparr>jc_url = ''u'', jc_refresh = 300, jc_keys = Some [(''k1'', idp_key)], jc_lastFetch = 1000\<rparr>"
  let ?e = "\<lparr>rf_kid = ''k1'', rf_missed = 1000, rf_keys = [(''k1'', idp_key)], rf_time = 1000\<rparr>"
  define r0 where "r0 = key_start ''u'' 300 idp_net"
  define r1 where "r1 = r0\<lparr>kr_lookups := (kr_lookups r0)(0 := Waiting ''k1'')\<rparr>"
  define r2 where "r2 = r1\<lparr>kr_lookups := (kr_lookups r1)(1 := Waiting ''k1'')\<rparr>"
  define r3 where "r3 = r2\<lparr>kr_lookups := (kr_lookups r2)(0 := Answered (Inr idp_key)), kr_cache := ?c1,
    kr_world := idp_net, kr_log := [?e]\<rparr>"
  define r4 where "r4 = r3\<lparr>kr_lookups := (kr_lookups r3)(1 := Answered (Inr idp_key))\<rparr>"
  note defs = r0_def r1_def r2_def r3_def r4_def key_start_def
  have clock: "jn_clock ?J idp_net = 1000" by (simp add: ref_jwks_def idp_net_def)
  have miss: "cached ?c0 1000 kid = None" for kid by (simp add: cached_def)
  have found: "cached ?c1 1000 ''k1'' = Some idp_key" by (simp add: cached_def)
  have f: "fetch ?J ?c0 idp_net = (Inr [(''k1'', idp_key)], idp_net)" by (rule idp_fetch) simp
  have "key_step ?J r0 r1" unfolding r1_def
    by (rule key_step.miss) (simp_all add: defs clock miss)
  moreover have "key_step ?J r1 r2" unfolding r2_def
    by (rule key_step.miss) (simp_all add: defs clock miss)
  moreover have "key_step ?J r2 r3"
  proof -
    have st: "kr_lookups r2 0 = Waiting ''k1''" "kr_cache r2 = ?c0" "kr_world r2 = idp_net" "kr_log r2 = []"
      by (simp_all add: defs)
    have "getKey_locked ?J ''k1'' ?c0 idp_net = (Inr idp_key, ?c1, idp_net)"
      by (simp add: getKey_locked_def clock miss f)
    moreover have "logged ?J ''k1'' ?c0 idp_net = [?e]"
      by (simp add: logged_def clock miss f)
    ultimately show ?thesis
      using key_step.locked [where t = 0 and r = r2 and J = ?J, OF st(1)] st unfolding r3_def by simp
  qed
  moreover have "key_step ?J r3 r4"
  proof -
    have st: "kr_lookups r3 1 = Waiting ''k1''" "kr_cache r3 = ?c1" "kr_world r3 = idp_net" "kr_log r3 = [?e]"
      by (simp_all add: defs)
    have "getKey_locked ?J ''k1'' ?c1 idp_net = (Inr idp_key, ?c1, idp_net)"
      by (simp add: getKey_locked_def clock found)
    moreover have "logged ?J ''k1'' ?c1 idp_net = []"
      by (simp add: logged_def clock found)
    ultimately have "key_step ?J r3 (r3\<lparr>kr_lookups := (kr_lookups r3)(1 := Answered (Inr idp_key)),
        kr_cache := ?c1, kr_world := idp_net, kr_log := [?e]\<rparr>)"
      using key_step.locked [where t = 1 and r = r3 and J = ?J, OF st(1)] st by simp
    moreover have "r3\<lparr>kr_lookups := (kr_lookups r3)(1 := Answered (Inr idp_key)),
        kr_cache := ?c1, kr_world := idp_net, kr_log := [?e]\<rparr> = r4"
      using st(2-4) unfolding r4_def by (cases r3) simp
    ultimately show ?thesis by simp
  qed
  ultimately have run: "key_run ?J (key_start ''u'' 300 idp_net) r4"
    unfolding r0_def [symmetric] by (meson key_run.intros)
  have r4: "kr_lookups r4 0 = Answered (Inr idp_key)" "kr_lookups r4 1 = Answered (Inr idp_key)"
    "kr_log r4 = [?e]"
    by (simp_all add: defs)
  then have "all_found (kr_log r4)" by (simp add: all_found_def)
  with getKey_concurrent [OF ref_jwks.jwks_provider_axioms ref_clock.jwks_clock_axioms run] r4 clock run
  show ?thesis by (intro exI [of _ r4]) auto
qed

end
