(* ===== verification/Html_Template.thy ===== *)
theory Html_Template
  imports Go_Json
begin

text \<open>
  What the pages use of Go's \<^verbatim>\<open>html/template\<close> and \<^verbatim>\<open>net/url\<close>: the escapers that the template
  engine puts on its actions, and the reading of a query. An action in an element or in a
  quoted attribute is escaped for HTML; an action behind the question mark of a link is
  first escaped for a URL.
\<close>

section \<open>Escaping\<close>

text \<open>The replacement table of the engine; a NUL becomes the replacement character.\<close>

definition html_char :: "char \<Rightarrow> string" where
  "html_char c =
     (if byte c = 0 then replacement
      else if byte c = 34 then ''&#34;''
      else if c = CHR ''&'' then ''&amp;''
      else if byte c = 39 then ''&#39;''
      else if c = CHR ''+'' then ''&#43;''
      else if c = CHR ''<'' then ''&lt;''
      else if c = CHR ''>'' then ''&gt;''
      else [c])"

definition html_escape :: "string \<Rightarrow> string" where
  "html_escape s = concat (map html_char s)"

text \<open>Letters, digits and \<^verbatim>\<open>-._~\<close> stay in a query, every other byte is written in hex.\<close>

definition unreserved :: "char \<Rightarrow> bool" where
  "unreserved c \<longleftrightarrow>
     (let b = byte c
      in 48 \<le> b \<and> b \<le> 57 \<or> 65 \<le> b \<and> b \<le> 90 \<or> 97 \<le> b \<and> b \<le> 122 \<or>
         c = CHR ''-'' \<or> c = CHR ''.'' \<or> c = CHR ''_'' \<or> c = CHR ''~'')"

definition query_char :: "char \<Rightarrow> string" where
  "query_char c =
     (if unreserved c then [c] else [CHR ''%'', hex_char (byte c div 16), hex_char (byte c mod 16)])"

definition query_escape :: "string \<Rightarrow> string" where
  "query_escape s = concat (map query_char s)"

text \<open>A template with its actions done: text of the template, and escaped values.\<close>

datatype piece =
    Static string
  | Escaped string
  | Query string

fun emit :: "piece \<Rightarrow> string" where
  "emit (Static s) = s"
| "emit (Escaped s) = html_escape s"
| "emit (Query s) = html_escape (query_escape s)"

definition execute :: "piece list \<Rightarrow> string" where
  "execute ps = concat (map emit ps)"

section \<open>Reading a query\<close>

fun queryUnescape :: "string \<Rightarrow> string option" where
  "queryUnescape [] = Some []"
| "queryUnescape (c # s) =
     (if c = CHR ''%'' then
        (case s of
           a # b # rest \<Rightarrow>
             (case (hex_value a, hex_value b) of
                (Some x, Some y) \<Rightarrow> map_option ((#) (unbyte (16 * x + y))) (queryUnescape rest)
              | _ \<Rightarrow> None)
         | _ \<Rightarrow> None)
      else map_option ((#) (if c = CHR ''+'' then CHR '' '' else c)) (queryUnescape s))"

text \<open>The pairs of a query; those that are empty or malformed are left out.\<close>

definition query_pair :: "string \<Rightarrow> (string \<times> string) list" where
  "query_pair kv =
     (if kv = [] \<or> CHR '';'' \<in> set kv then []
      else (let k = takeWhile (\<lambda>c. c \<noteq> CHR ''='') kv; v = drop (Suc (length k)) kv
            in case (queryUnescape k, queryUnescape v) of
                 (Some key, Some val) \<Rightarrow> [(key, val)]
               | _ \<Rightarrow> []))"

definition query_get :: "string \<Rightarrow> string \<Rightarrow> string" where
  "query_get q key =
     (case map_of (concat (map query_pair (split_on (CHR ''&'') q))) key of
        None \<Rightarrow> []
      | Some v \<Rightarrow> v)"

section \<open>Round trip of a link\<close>

lemma byte_nibbles:
  "0 \<le> byte c div 16" "byte c div 16 < 16" "0 \<le> byte c mod 16" "byte c mod 16 < 16"
  using byte_range [of c] by presburger+

lemma hex_char_unreserved: "0 \<le> n \<Longrightarrow> n < 16 \<Longrightarrow> unreserved (hex_char n)"
proof -
  assume "0 \<le> n" "n < 16"
  then have "n \<in> set [0..15]" by simp
  moreover have "\<forall>n \<in> set [0..15]. unreserved (hex_char n)" by code_simp
  ultimately show ?thesis by blast
qed

lemma query_char_safe: "\<forall>c \<in> set (query_char x). unreserved c \<or> c = CHR ''%''"
proof (cases "unreserved x")
  case False
  then have "query_char x = [CHR ''%'', hex_char (byte x div 16), hex_char (byte x mod 16)]"
    by (simp only: query_char_def if_False)
  then show ?thesis
    using hex_char_unreserved [OF byte_nibbles(1,2)] hex_char_unreserved [OF byte_nibbles(3,4)] by simp
qed (simp add: query_char_def)

lemma query_escape_safe: "\<forall>c \<in> set (query_escape s). unreserved c \<or> c = CHR ''%''"
  using query_char_safe unfolding query_escape_def set_concat set_map by blast

lemma byte_eq: "c = d \<longleftrightarrow> byte c = byte d"
  by (metis unbyte_byte)

lemmas char_bytes = byte_eq [of _ "CHR ''-''"] byte_eq [of _ "CHR ''.''"] byte_eq [of _ "CHR ''_''"]
  byte_eq [of _ "CHR ''~''"] byte_eq [of _ "CHR ''&''"] byte_eq [of _ "CHR ''+''"] byte_eq [of _ "CHR ''<''"]
  byte_eq [of _ "CHR ''>''"] byte_eq [of _ "CHR ''%''"] byte_eq [of _ "CHR '';''"]

lemma html_char_safe: "unreserved c \<or> c = CHR ''%'' \<Longrightarrow> html_char c = [c]"
  unfolding unreserved_def html_char_def Let_def char_bytes by (simp split: if_split) arith

lemma unreserved_not: "unreserved c \<Longrightarrow> c \<noteq> CHR ''%'' \<and> c \<noteq> CHR ''+'' \<and> c \<noteq> CHR ''&'' \<and> c \<noteq> CHR '';''"
  unfolding unreserved_def Let_def char_bytes by simp arith

lemma html_escape_query [simp]: "html_escape (query_escape s) = query_escape s"
proof -
  have "\<forall>c \<in> set xs. html_char c = [c] \<Longrightarrow> concat (map html_char xs) = xs" for xs
    by (induction xs) auto
  then show ?thesis
    using query_escape_safe [of s] html_char_safe unfolding html_escape_def by blast
qed

lemma queryUnescape_plain:
  "unreserved c \<Longrightarrow> queryUnescape (c # s) = map_option ((#) c) (queryUnescape s)"
  using unreserved_not [of c] by simp

lemma queryUnescape_char: "queryUnescape (query_char c @ s) = map_option ((#) c) (queryUnescape s)"
proof (cases "unreserved c")
  case True
  then show ?thesis by (simp add: query_char_def queryUnescape_plain del: queryUnescape.simps)
next
  case False
  have h: "hex_value (hex_char (byte c div 16)) = Some (byte c div 16)"
    "hex_value (hex_char (byte c mod 16)) = Some (byte c mod 16)"
    using byte_nibbles [of c] by (simp_all only: hex_value_char)
  have "16 * (byte c div 16) + byte c mod 16 = byte c" by simp
  with False h show ?thesis by (simp add: query_char_def)
qed

lemma queryUnescape_escape [simp]: "queryUnescape (query_escape s) = Some s"
  by (induction s) (simp_all add: query_escape_def queryUnescape_char)

lemma query_get_escape: "query_get (''path='' @ query_escape s) ''path'' = s"
proof -
  let ?q = "''path='' @ query_escape s"
  have free: "CHR ''&'' \<notin> set (query_escape s)" "CHR '';'' \<notin> set (query_escape s)"
    using query_escape_safe [of s] unreserved_not by fastforce+
  have "split_on (CHR ''&'') ?q = [?q]"
    using free by (intro split_on_free) simp
  moreover have "query_pair ?q = [(''path'', s)]"
    using free by (simp add: query_pair_def)
  ultimately show ?thesis by (simp add: query_get_def)
qed

section \<open>Markup\<close>

text \<open>The characters that a browser reads as markup or as the end of a quoted value.\<close>

definition is_markup :: "char \<Rightarrow> bool" where
  "is_markup c \<longleftrightarrow> c = CHR ''<'' \<or> c = CHR ''>'' \<or> byte c = 34 \<or> byte c = 39"

definition markup :: "string \<Rightarrow> string" where
  "markup s = filter is_markup s"

lemma markup_append [simp]: "markup (a @ b) = markup a @ markup b"
  by (simp add: markup_def)

lemma markup_html_char: "markup (html_char c) = []"
  by (auto simp: markup_def html_char_def is_markup_def replacement_def)

lemma markup_html_escape [simp]: "markup (html_escape s) = []"
  by (induction s) (simp_all add: html_escape_def markup_html_char, simp add: markup_def)

text \<open>Only the text of the template contributes markup.\<close>

lemma markup_emit [simp]:
  "markup (emit (Escaped s)) = []" "markup (emit (Query s)) = []"
  by (simp_all only: emit.simps markup_html_escape)

end
