(* ===== verification/Policy.thy ===== *)
theory Policy
  imports Vault_Paths
begin

text \<open>
  Who may touch which vault path (permissions.go, csi.go): path patterns, the resolved
  permissions of a web user, and the namespace and service-account policy of mounts.
  The tables guarded by \<^verbatim>\<open>PermissionManager.mu\<close> are the record \<open>perm_tables\<close>, which the
  full \<open>PermissionManager\<close> extends.
\<close>

section \<open>Data\<close>

record perm_tables =
  permissions :: "(string, string list) gomap"
  admins :: "string list"
  namespacePermissions :: "(string, string list) gomap"

record UserPermissions =
  username :: string
  isAdmin :: bool
  patterns :: "string list"

section \<open>Pattern matching\<close>

definition matchPermission :: "string \<Rightarrow> string \<Rightarrow> bool" where
  "matchPermission pattern0 vaultPath0 =
     (let pattern = normalizePath pattern0;
          vaultPath = path_clean (normalizePath vaultPath0)
      in if hasSuffix pattern ''/*'' then
           (let prfx = trimSuffix pattern ''/*''
            in if prfx = [] then True
               else if vaultPath = prfx then True
               else (let prfx' = (if \<not> hasSuffix prfx ''/'' then prfx @ ''/'' else prfx)
                     in hasPrefix vaultPath prfx'))
         else pattern = vaultPath)"

text \<open>The loops over a pattern list: true at the first pattern that matches.\<close>

fun any_match :: "string list \<Rightarrow> string \<Rightarrow> bool" where
  "any_match [] vaultPath = False"
| "any_match (pattern # ps) vaultPath =
     (if matchPermission pattern vaultPath then True else any_match ps vaultPath)"

lemma any_match_iff: "any_match ps p \<longleftrightarrow> (\<exists>pat \<in> set ps. matchPermission pat p)"
  by (induction ps) auto

section \<open>Web users\<close>

fun admin_listed :: "string list \<Rightarrow> string \<Rightarrow> bool" where
  "admin_listed [] u = False"
| "admin_listed (admin # as) u = (if admin = u then True else admin_listed as u)"

definition GetUserPermissions :: "'a perm_tables_scheme \<Rightarrow> string \<Rightarrow> UserPermissions" where
  "GetUserPermissions pm u =
     \<lparr>username = u,
      isAdmin = admin_listed (admins pm) u,
      patterns = (case map_of (permissions pm) u of Some ps \<Rightarrow> ps | None \<Rightarrow> [])\<rparr>"

definition CanRead :: "UserPermissions \<Rightarrow> string \<Rightarrow> bool" where
  "CanRead up vaultPath = (if isAdmin up then True else any_match (patterns up) vaultPath)"

definition CanWrite :: "UserPermissions \<Rightarrow> string \<Rightarrow> bool" where
  "CanWrite up vaultPath = CanRead up vaultPath"

definition CanExport :: "UserPermissions \<Rightarrow> bool" where
  "CanExport up = isAdmin up"

lemma admin_listed_iff: "admin_listed as u \<longleftrightarrow> u \<in> set as"
  by (induction as) auto

section \<open>Workloads\<close>

text \<open>
  \<^verbatim>\<open>CanAccess\<close> on a nil manager is false. A key \<open>namespace/sa\<close> in the table decides
  alone; otherwise the key \<open>namespace\<close> decides alone; otherwise access is denied.
\<close>

definition CanAccess ::
    "'a perm_tables_scheme option \<Rightarrow> string \<Rightarrow> string \<Rightarrow> string \<Rightarrow> bool" where
  "CanAccess pm_opt namespace sa vaultPath =
     (case pm_opt of
        None \<Rightarrow> False
      | Some pm \<Rightarrow>
          (case map_of (namespacePermissions pm) (namespace @ ''/'' @ sa) of
             Some ps \<Rightarrow> any_match ps vaultPath
           | None \<Rightarrow>
               (case map_of (namespacePermissions pm) namespace of
                  Some ps \<Rightarrow> any_match ps vaultPath
                | None \<Rightarrow> False)))"

text \<open>
  \<^verbatim>\<open>ProviderServer.canAccess\<close>: without a permission manager, the answer is the
  development-mode switch.
\<close>

definition server_canAccess ::
    "'a perm_tables_scheme option \<Rightarrow> bool \<Rightarrow> string \<Rightarrow> string \<Rightarrow> string \<Rightarrow> bool" where
  "server_canAccess permMgr allowUnauthenticated namespace sa vaultPath =
     (case permMgr of
        None \<Rightarrow> allowUnauthenticated
      | Some pm \<Rightarrow> CanAccess (Some pm) namespace sa vaultPath)"

section \<open>What a pattern means\<close>

text \<open>
  The abstract specification of a pattern is a set of nodes of the tree, given by
  segments. Patterns are not cleaned: one that is not canonical matches nothing, apart
  from a doubled slash before the star, which matches strictly below its prefix.
\<close>

datatype scope =
    Everything
  | Subtree "string list"
  | StrictlyBelow "string list"
  | Exactly "string list"
  | Nothing

fun in_scope :: "scope \<Rightarrow> string list \<Rightarrow> bool" where
  "in_scope Everything ss = True"
| "in_scope (Subtree ps) ss = prefix ps ss"
| "in_scope (StrictlyBelow ps) ss = strict_prefix ps ss"
| "in_scope (Exactly ps) ss = (ss = ps)"
| "in_scope Nothing ss = False"

definition scope_of :: "string \<Rightarrow> scope" where
  "scope_of pat =
     (let n = normalizePath pat
      in if hasSuffix n ''/*'' then
           (let p = trimSuffix n ''/*''
            in if p = [] \<or> p = ''/'' then Everything
               else if canonical p then Subtree (abs_path p)
               else if hasSuffix p ''/'' \<and> canonical (butlast p) \<and> butlast p \<noteq> ''/''
                 then StrictlyBelow (abs_path (butlast p))
               else Nothing)
         else if canonical n then Exactly (abs_path n)
         else Nothing)"

lemma render_not_slash_suffix:
  assumes "canonical p" "p \<noteq> ''/''"
  shows "\<not> hasSuffix p ''/''"
proof
  assume "hasSuffix p ''/''"
  then obtain q where q: "p = q @ ''/''"
    by (auto simp: hasSuffix_def suffix_def)
  obtain ss where ss: "p = render ss" "list_all good_seg ss"
    using assms(1) by (metis canonicalE)
  have "ss \<noteq> []"
    using assms(2) ss(1) by (auto simp: render_def)
  have "split_on slash p = split_on slash q @ [[]]"
    using q split_on_append [of slash q "[]"] by simp
  then have "[] \<in> set ss"
    using ss \<open>ss \<noteq> []\<close> by (auto simp: split_render Cons_eq_append_conv)
  with ss(2) show False
    by (auto simp: list_all_iff good_seg_def)
qed

lemma rooted_trimSuffix:
  assumes "rooted n" "hasSuffix n ''/*''" "trimSuffix n ''/*'' \<noteq> []"
  shows "rooted (trimSuffix n ''/*'')"
proof -
  obtain r where "n = r @ ''/*''" "trimSuffix n ''/*'' = r"
    using assms(2) by (metis hasSuffixE)
  with assms show ?thesis by (cases r) auto
qed

lemma prefix_match_scope:
  assumes "rooted p" and v: "canonical v"
  shows "(v = p \<or> hasPrefix v (if \<not> hasSuffix p ''/'' then p @ ''/'' else p)) \<longleftrightarrow>
    (if p = ''/'' then True
     else if canonical p then prefix (abs_path p) (abs_path v)
     else if hasSuffix p ''/'' \<and> canonical (butlast p) \<and> butlast p \<noteq> ''/''
       then strict_prefix (abs_path (butlast p)) (abs_path v)
     else False)"
proof -
  consider (root) "p = ''/''" | (canon) "p \<noteq> ''/''" "canonical p"
    | (slashed) q where "p = q @ ''/''" "rooted q" "\<not> canonical p"
    | (other) "p \<noteq> ''/''" "\<not> canonical p" "\<not> hasSuffix p ''/''"
  proof (cases "hasSuffix p ''/''")
    case True
    then obtain q where "p = q @ ''/''"
      by (auto simp: hasSuffix_def suffix_def)
    with assms(1) that show ?thesis
      by (cases q) auto
  next
    case False
    with that show ?thesis by blast
  qed
  then show ?thesis
  proof cases
    case root
    with canonical_rooted [OF v] show ?thesis
      by (simp add: hasSuffix_def hasPrefix_def rooted_def)
  next
    case canon
    then have "v = p \<or> hasPrefix v (p @ ''/'') \<longleftrightarrow> v = p \<or> below p v"
      using v by (simp add: prefix_slash_below)
    also have "\<dots> \<longleftrightarrow> prefix (abs_path p) (abs_path v)"
      using canonical_eq_iff [OF v canon(2)] by (auto simp: below_def strict_prefix_def)
    finally show ?thesis
      using canon render_not_slash_suffix [of p] by simp
  next
    case (slashed q)
    have "hasSuffix p ''/''" and "v \<noteq> p" and "p \<noteq> ''/''"
      using slashed v by (auto simp: hasSuffix_def)
    with slashed prefix_slash_iff [OF slashed(2) v] show ?thesis
      by (auto simp: below_def)
  next
    case other
    with v prefix_slash_iff [OF assms(1) v] show ?thesis by auto
  qed
qed

lemma matchPermission_scope:
  "matchPermission pat p \<longleftrightarrow> in_scope (scope_of pat) (locate p)"
proof (cases "hasSuffix (normalizePath pat) ''/*''")
  case wild: True
  let ?q = "trimSuffix (normalizePath pat) ''/*''"
  let ?v = "path_clean (normalizePath p)"
  have v: "canonical ?v" "abs_path ?v = locate p"
    by (simp_all add: abs_path_clean locate_def)
  show ?thesis
  proof (cases "?q = []")
    case True
    with wild show ?thesis
      by (simp add: matchPermission_def scope_of_def)
  next
    case False
    then have "rooted ?q"
      using wild by (simp add: rooted_trimSuffix)
    have "matchPermission pat p \<longleftrightarrow>
        ?v = ?q \<or> hasPrefix ?v (if \<not> hasSuffix ?q ''/'' then ?q @ ''/'' else ?q)"
      using wild False by (simp add: matchPermission_def Let_def)
    also note prefix_match_scope [OF \<open>rooted ?q\<close> v(1)]
    also have "(if ?q = ''/'' then True
         else if canonical ?q then prefix (abs_path ?q) (abs_path ?v)
         else if hasSuffix ?q ''/'' \<and> canonical (butlast ?q) \<and> butlast ?q \<noteq> ''/''
           then strict_prefix (abs_path (butlast ?q)) (abs_path ?v)
         else False) \<longleftrightarrow> in_scope (scope_of pat) (locate p)"
      using wild False v(2) by (simp add: scope_of_def Let_def)
    finally show ?thesis .
  qed
next
  case exact: False
  let ?n = "normalizePath pat"
  have "?n = render (locate p) \<longleftrightarrow> canonical ?n \<and> abs_path ?n = locate p"
    by (metis abs_render canonical_def canonical_render locate_good)
  with exact show ?thesis
    by (auto simp: matchPermission_def scope_of_def clean_normalize_eq Let_def)
qed

section \<open>The contract of an authorisation check\<close>

text \<open>
  \<open>path_policy\<close>: the interface the mount handler and the web handlers rely on. The
  decision depends only on the node of the tree that the path denotes, so no spelling of
  a path (\<^verbatim>\<open>..\<close>, \<^verbatim>\<open>.\<close>, doubled or missing slashes) changes it.
  \<open>pattern_policy\<close>: how the program provides it, a superuser bit and a list of patterns.
\<close>

locale path_policy =
  fixes allows :: "'s \<Rightarrow> string \<Rightarrow> bool"
  assumes allows_render: "allows s p = allows s (render (locate p))"
begin

lemma same_node: "locate p = locate q \<Longrightarrow> allows s p = allows s q"
  by (metis allows_render)

lemma allows_clean: "allows s (path_clean (normalizePath p)) = allows s p"
  by (metis allows_render clean_normalize_eq)

end

locale pattern_policy =
  fixes allows :: "'s \<Rightarrow> string \<Rightarrow> bool"
    and superuser :: "'s \<Rightarrow> bool"
    and grants :: "'s \<Rightarrow> string list"
  assumes allows_patterns: "allows s p \<longleftrightarrow> superuser s \<or> any_match (grants s) p"
begin

lemma allows_scope:
  "allows s p \<longleftrightarrow> superuser s \<or> (\<exists>pat \<in> set (grants s). in_scope (scope_of pat) (locate p))"
  by (simp add: allows_patterns any_match_iff matchPermission_scope)

lemma deny_by_default: "\<not> superuser s \<Longrightarrow> grants s = [] \<Longrightarrow> \<not> allows s p"
  by (simp add: allows_patterns)

lemma allows_mono:
  "superuser s \<le> superuser t \<Longrightarrow> set (grants s) \<subseteq> set (grants t) \<Longrightarrow> allows s p \<Longrightarrow> allows t p"
  by (auto simp: allows_scope)

end

sublocale pattern_policy \<subseteq> path_policy allows
proof unfold_locales
  fix s p
  have "locate (render (locate p)) = locate p"
    by (simp add: locate_canonical canonical_render abs_render locate_good)
  then show "allows s p = allows s (render (locate p))"
    by (simp add: allows_scope)
qed

text \<open>The grants a workload has: the most specific key of the namespace table.\<close>

definition workload_grants :: "'a perm_tables_scheme option \<Rightarrow> string \<Rightarrow> string \<Rightarrow> string list" where
  "workload_grants pm_opt namespace sa =
     (case pm_opt of
        None \<Rightarrow> []
      | Some pm \<Rightarrow>
          (case map_of (namespacePermissions pm) (namespace @ ''/'' @ sa) of
             Some ps \<Rightarrow> ps
           | None \<Rightarrow> (case map_of (namespacePermissions pm) namespace of Some ps \<Rightarrow> ps | None \<Rightarrow> [])))"

interpretation user: pattern_policy CanRead isAdmin patterns
  by unfold_locales (simp add: CanRead_def)

interpretation workload: pattern_policy
    "\<lambda>(pm, ns, sa). CanAccess pm ns sa" "\<lambda>_. False"
    "\<lambda>(pm, ns, sa). workload_grants pm ns sa"
  by unfold_locales (auto simp: CanAccess_def workload_grants_def split: option.splits)

interpretation server: pattern_policy
    "\<lambda>(pm, unauth, ns, sa). server_canAccess pm unauth ns sa"
    "\<lambda>(pm, unauth, ns, sa). pm = None \<and> unauth"
    "\<lambda>(pm, unauth, ns, sa). workload_grants pm ns sa"
  by unfold_locales
    (auto simp: server_canAccess_def CanAccess_def workload_grants_def split: option.splits)

section \<open>Properties\<close>

text \<open>
  (C9) What a permission pattern grants: a pattern matches a path exactly when the node
  the path denotes, after cleaning, is in the scope the pattern denotes. In particular a
  canonical \<open>P/*\<close> grants \<open>P\<close> and what is below it segment by segment, never a sibling
  whose name merely starts like \<open>P\<close>.
\<close>

theorem matchPermission_denotes:
  "matchPermission pat p = in_scope (scope_of pat) (locate p)"
  by (rule matchPermission_scope)

text \<open>
  (C17) No spelling escapes a grant: two paths that denote the same node of the tree are
  treated alike by every check, for web users, for workloads and for the provider, so
  \<open>/app/../admin/x\<close> is decided as \<open>/admin/x\<close>.
\<close>

theorem no_spelling_escapes:
  assumes "locate p = locate q"
  shows "CanRead up p = CanRead up q \<and> CanWrite up p = CanWrite up q \<and>
    CanAccess pm ns sa p = CanAccess pm ns sa q \<and>
    server_canAccess pm unauth ns sa p = server_canAccess pm unauth ns sa q"
  using user.same_node [OF assms, of up] workload.same_node [OF assms, of "(pm, ns, sa)"]
    server.same_node [OF assms, of "(pm, unauth, ns, sa)"]
  by (simp add: CanWrite_def)

theorem no_spelling_escapes_witness:
  "locate ''/app/../admin/x'' = locate ''/admin/x'' \<and>
   \<not> CanWrite \<lparr>username = ''u'', isAdmin = False, patterns = [''/app/*'']\<rparr> ''/app/../admin/x''"
proof -
  have same: "locate ''/app/../admin/x'' = locate ''/admin/x''"
    by code_simp
  have "\<not> CanWrite \<lparr>username = ''u'', isAdmin = False, patterns = [''/app/*'']\<rparr> ''/admin/x''"
    by code_simp
  then show ?thesis
    using same no_spelling_escapes [OF same, of _ "None :: perm_tables option"] by blast
qed

text \<open>
  What a web user may read and write: everything for an admin, else exactly the nodes
  in the scope of one of the patterns listed under the user's name in the permissions
  file; only a listed admin may export.
\<close>

lemma user_permissions_meaning:
  "CanRead (GetUserPermissions pm u) p =
     (u \<in> set (admins pm) \<or>
      (\<exists>ps. map_of (permissions pm) u = Some ps \<and> (\<exists>pat \<in> set ps. in_scope (scope_of pat) (locate p)))) \<and>
   CanWrite (GetUserPermissions pm u) p = CanRead (GetUserPermissions pm u) p \<and>
   CanExport (GetUserPermissions pm u) = (u \<in> set (admins pm))"
  using user.allows_scope [of "GetUserPermissions pm u" p]
  by (auto simp: GetUserPermissions_def CanWrite_def CanExport_def admin_listed_iff split: option.splits)

text \<open>
  What a workload may mount: the entry for \<open>namespace/sa\<close> decides alone when there is
  one, even if the entry for the namespace grants more; otherwise the entry for the
  namespace decides; a workload with neither gets nothing.
\<close>

lemma workload_policy:
  "CanAccess (Some pm) ns sa p =
     (case map_of (namespacePermissions pm) (ns @ ''/'' @ sa) of
        Some ps \<Rightarrow> list_ex (\<lambda>pat. in_scope (scope_of pat) (locate p)) ps
      | None \<Rightarrow>
          (case map_of (namespacePermissions pm) ns of
             Some ps \<Rightarrow> list_ex (\<lambda>pat. in_scope (scope_of pat) (locate p)) ps
           | None \<Rightarrow> False)) \<and>
   \<not> CanAccess (None :: 'a perm_tables_scheme option) ns sa p"
  using workload.allows_scope [of "(Some pm, ns, sa)" p]
  by (auto simp: workload_grants_def list_ex_iff CanAccess_def any_match_iff matchPermission_scope
      split: option.splits)

end
