(* ===== verification/Tree_View.thy ===== *)
theory Tree_View
  imports Policy Vault_Tree "HOL-Library.Multiset" "HOL-Library.List_Lexorder" "HOL-Library.Char_ord"
begin

text \<open>
  What the web interface shows (ui.go: \<^verbatim>\<open>UIState\<close> and its parts, \<^verbatim>\<open>buildTreeState\<close>): the
  folders and entries under a path, or one entry, restricted to what the user may read.
  Strings are ordered bytewise, as Go compares them.
\<close>

section \<open>Data\<close>

record UISecret =
  us_Path :: string
  us_Name :: string

record UIFolder =
  uf_Name :: string
  uf_Path :: string

record UIFolderDetail =
  ufd_Path :: string

record Breadcrumb =
  bc_Name :: string
  bc_Path :: string
  bc_IsLast :: bool

record UIState =
  Locked :: bool
  Error :: string
  IsEntryView :: bool
  CurrentPath :: string
  CurrentName :: string
  ParentPath :: string
  Folders :: "UIFolder list"
  Entries :: "UISecret list"
  Folder :: "UIFolderDetail option"
  Breadcrumbs :: "Breadcrumb list"
  EntryPath :: string
  Entry :: UISecret

definition no_secret :: UISecret where
  "no_secret = \<lparr>us_Path = [], us_Name = []\<rparr>"

definition zero_state :: UIState where
  "zero_state =
     \<lparr>Locked = False, Error = [], IsEntryView = False, CurrentPath = [], CurrentName = [],
      ParentPath = [], Folders = [], Entries = [], Folder = None, Breadcrumbs = [],
      EntryPath = [], Entry = no_secret\<rparr>"

section \<open>Building the state\<close>

definition readable :: "UserPermissions option \<Rightarrow> string \<Rightarrow> bool" where
  "readable userPerms p = (case userPerms of None \<Rightarrow> True | Some up \<Rightarrow> CanRead up p)"

text \<open>The two breadcrumb loops have the same body.\<close>

fun crumbs :: "string \<Rightarrow> string list \<Rightarrow> Breadcrumb list" where
  "crumbs buildPath [] = []"
| "crumbs buildPath (part # parts) =
     (let joined = path_join buildPath part;
          bp = (if joined = ''.'' then ''/'' else joined)
      in \<lparr>bc_Name = part, bc_Path = bp, bc_IsLast = (parts = [])\<rparr> # crumbs bp parts)"

definition breadcrumbs :: "string \<Rightarrow> Breadcrumb list" where
  "breadcrumbs p = crumbs ''/'' (split_on slash (trimChar p slash))"

definition parent_of :: "string \<Rightarrow> string" where
  "parent_of p = (let d = path_dir p in if d = ''.'' then ''/'' else d)"

text \<open>The loop over the nodes; the folder set is a map to true.\<close>

fun list_nodes ::
    "UserPermissions option \<Rightarrow> string \<Rightarrow> string \<Rightarrow> (string, VaultNode) gomap \<Rightarrow>
     UISecret list \<Rightarrow> (string, bool) gomap \<Rightarrow> UISecret list \<times> (string, bool) gomap" where
  "list_nodes userPerms currentPath prfx [] entries folderSet = (entries, folderSet)"
| "list_nodes userPerms currentPath prfx ((vaultPath, node) # rest) entries folderSet =
     (if vaultPath = currentPath then list_nodes userPerms currentPath prfx rest entries folderSet
      else if \<not> hasPrefix vaultPath prfx then list_nodes userPerms currentPath prfx rest entries folderSet
      else if \<not> readable userPerms vaultPath then list_nodes userPerms currentPath prfx rest entries folderSet
      else (let remaining = trimPrefix vaultPath prfx
            in if remaining = [] then list_nodes userPerms currentPath prfx rest entries folderSet
               else (let segments = splitN2 slash remaining;
                         name = hd segments
                     in if length segments = 1 \<and> \<not> IsFolder node
                        then list_nodes userPerms currentPath prfx rest
                          (entries @ [\<lparr>us_Path = vaultPath, us_Name = name\<rparr>]) folderSet
                        else (let folderPath =
                                (if currentPath = ''/'' \<or> currentPath = [] then ''/'' @ name
                                 else path_join currentPath name)
                              in list_nodes userPerms currentPath prfx rest entries
                                   (AList.update folderPath True folderSet)))))"

definition buildTreeState ::
    "VaultTree \<Rightarrow> string \<Rightarrow> string \<Rightarrow> UserPermissions option \<Rightarrow> UIState" where
  "buildTreeState tree currentPath0 entryPath0 userPerms =
     (let currentPath = normalizePath currentPath0;
          entryPath = normalizePath entryPath0
      in if entryPath \<noteq> ''/'' then
           zero_state
             \<lparr>CurrentPath := currentPath, IsEntryView := True, EntryPath := entryPath,
              Entry :=
                (case map_of (nodes_of tree) entryPath of
                   Some node \<Rightarrow>
                     if \<not> IsFolder node \<and> readable userPerms entryPath
                     then \<lparr>us_Path = entryPath, us_Name = path_base entryPath\<rparr> else no_secret
                 | None \<Rightarrow> no_secret),
              ParentPath := parent_of entryPath,
              Breadcrumbs := breadcrumbs entryPath\<rparr>
         else
           (let prfx = (if currentPath \<noteq> ''/'' \<and> currentPath \<noteq> [] then currentPath @ ''/'' else currentPath);
                (entries, folderSet) = list_nodes userPerms currentPath prfx (nodes_of tree) [] []
            in zero_state
                 \<lparr>CurrentPath := currentPath,
                  CurrentName := (if currentPath = ''/'' then [] else path_base currentPath),
                  ParentPath := parent_of currentPath,
                  Breadcrumbs := (if currentPath \<noteq> [] \<and> currentPath \<noteq> ''/'' then breadcrumbs currentPath else []),
                  Folder :=
                    (case map_of (nodes_of tree) currentPath of
                       Some node \<Rightarrow>
                         if IsFolder node \<and> readable userPerms currentPath
                         then Some \<lparr>ufd_Path = currentPath\<rparr> else None
                     | None \<Rightarrow> None),
                  Folders := sort_key uf_Name
                    (map (\<lambda>(fp, b). \<lparr>uf_Name = path_base fp, uf_Path = fp\<rparr>) folderSet),
                  Entries := sort_key us_Name entries\<rparr>))"

section \<open>What one node contributes\<close>

text \<open>
  A node below the current path and readable shows up as an entry, if it is a secret and a
  child, and otherwise as the folder that is the child of the current path above it.
\<close>

definition shown :: "UserPermissions option \<Rightarrow> string \<Rightarrow> string \<Rightarrow> bool" where
  "shown up cur k \<longleftrightarrow> strict_prefix (abs_path cur) (abs_path k) \<and> readable up k"

definition is_entry :: "string \<Rightarrow> string \<Rightarrow> VaultNode \<Rightarrow> bool" where
  "is_entry cur k n \<longleftrightarrow> length (abs_path k) = Suc (length (abs_path cur)) \<and> \<not> IsFolder n"

definition entry_of :: "UserPermissions option \<Rightarrow> string \<Rightarrow> string \<times> VaultNode \<Rightarrow> UISecret option" where
  "entry_of up cur kn =
     (case kn of (k, n) \<Rightarrow>
        if shown up cur k \<and> is_entry cur k n then Some \<lparr>us_Path = k, us_Name = last (abs_path k)\<rparr>
        else None)"

definition folder_of :: "UserPermissions option \<Rightarrow> string \<Rightarrow> string \<times> VaultNode \<Rightarrow> string option" where
  "folder_of up cur kn =
     (case kn of (k, n) \<Rightarrow>
        if shown up cur k \<and> \<not> is_entry cur k n
        then Some (render (take (Suc (length (abs_path cur))) (abs_path k))) else None)"

definition dir_of :: "string \<Rightarrow> string" where
  "dir_of cur = (if cur \<noteq> ''/'' \<and> cur \<noteq> [] then cur @ ''/'' else cur)"

lemma render_Nil_iff: "list_all good_seg ss \<Longrightarrow> render ss = ''/'' \<longleftrightarrow> ss = []"
  by (cases ss; cases "tl ss") (auto simp: render_def good_seg_def)

lemma render_neq_Nil [simp]: "render ss \<noteq> []"
  by (simp add: render_def)

lemma dir_of_render: "list_all good_seg xs \<Longrightarrow> dir_of (render xs) = (if xs = [] then ''/'' else render xs @ ''/'')"
proof (cases "xs = []")
  case True
  then show ?thesis by (simp add: dir_of_def) (simp add: render_def)
qed (simp add: dir_of_def render_Nil_iff)

lemma under_current:
  assumes xs: "list_all good_seg xs" and ys: "list_all good_seg ys" "ys \<noteq> []"
  shows "render ys \<noteq> render xs \<and> hasPrefix (render ys) (dir_of (render xs)) \<longleftrightarrow> strict_prefix xs ys"
proof (cases "xs = []")
  case True
  moreover have "prefix ''/'' (render ys)" "strict_prefix [] ys"
    using ys(2) by (simp add: render_def, cases ys, simp_all)
  moreover have "render ys \<noteq> render []"
    using ys by (simp add: render_inject)
  ultimately show ?thesis by (simp add: dir_of_render hasPrefix_def)
next
  case False
  then show ?thesis
    using prefix_render_slash [OF xs False ys(1)] xs
    by (auto simp: dir_of_render hasPrefix_def)
qed

lemma remaining_name:
  assumes "list_all good_seg xs" "list_all good_seg (z # zs)"
  shows "trimPrefix (render (xs @ z # zs)) (dir_of (render xs)) = join_with slash (z # zs)"
    and "join_with slash (z # zs) \<noteq> []"
    and "hd (splitN2 slash (join_with slash (z # zs))) = z"
    and "length (splitN2 slash (join_with slash (z # zs))) = 1 \<longleftrightarrow> zs = []"
proof -
  have z: "z \<noteq> []" "slash \<notin> set z"
    using assms by (simp_all add: good_seg_def)
  have "render (xs @ z # zs) = dir_of (render xs) @ join_with slash (z # zs)"
    using assms by (cases "xs = []") (simp_all add: dir_of_render render_append, simp add: render_def)
  then show "trimPrefix (render (xs @ z # zs)) (dir_of (render xs)) = join_with slash (z # zs)"
    by (simp add: trimPrefix_append)
  show "join_with slash (z # zs) \<noteq> []"
    using z by (cases zs) auto
  show "hd (splitN2 slash (join_with slash (z # zs))) = z"
    and "length (splitN2 slash (join_with slash (z # zs))) = 1 \<longleftrightarrow> zs = []"
    using z splitN2_append [OF z(2)] splitN2_free [OF z(2)] by (cases zs; simp)+
qed

lemma folder_path:
  assumes "list_all good_seg (xs @ [z])"
  shows "(if render xs = ''/'' \<or> render xs = [] then ''/'' @ z else path_join (render xs) z) = render (xs @ [z])"
  using assms path_join_render [OF assms] render_Nil_iff [of xs]
  by (cases "xs = []") (simp_all add: render_def)

lemma list_nodes_step:
  assumes cur: "canonical cur" and k: "canonical k" "k \<noteq> ''/''"
  shows "list_nodes up cur (dir_of cur) ((k, n) # rest) es fs =
    list_nodes up cur (dir_of cur) rest
      (es @ (case entry_of up cur (k, n) of None \<Rightarrow> [] | Some e \<Rightarrow> [e]))
      (case folder_of up cur (k, n) of None \<Rightarrow> fs | Some p \<Rightarrow> AList.update p True fs)"
proof -
  obtain xs where xs: "cur = render xs" "list_all good_seg xs" "abs_path cur = xs"
    using cur by (metis canonicalE)
  obtain ys where ys: "k = render ys" "list_all good_seg ys" "abs_path k = ys"
    using k by (metis canonicalE)
  have ne: "ys \<noteq> []"
    using ys(1) k(2) by (auto simp: render_def)
  note under = under_current [OF xs(2) ys(2) ne, folded xs(1) ys(1)]
  show ?thesis
  proof (cases "shown up cur k")
    case False
    then have "entry_of up cur (k, n) = None" "folder_of up cur (k, n) = None"
      by (simp_all add: entry_of_def folder_of_def)
    moreover have "k = cur \<or> \<not> hasPrefix k (dir_of cur) \<or> \<not> readable up k"
      using False under xs(3) ys(3) by (auto simp: shown_def)
    ultimately show ?thesis by auto
  next
    case True
    then have rd: "readable up k" and "strict_prefix xs ys"
      by (simp_all add: shown_def xs(3) ys(3))
    then obtain z zs where z: "ys = xs @ z # zs"
      by (metis strict_prefixE')
    have good: "list_all good_seg (z # zs)" and goodz: "list_all good_seg (xs @ [z])"
      using ys(2) xs(2) z by simp_all
    note rem = remaining_name [OF xs(2) good, folded z xs(1) ys(1)]
    have ent: "is_entry cur k n \<longleftrightarrow> zs = [] \<and> \<not> IsFolder n"
      by (simp add: is_entry_def xs(3) ys(3) z)
    have "k \<noteq> cur" "hasPrefix k (dir_of cur)"
      using under \<open>strict_prefix xs ys\<close> by auto
    moreover have "take (Suc (length xs)) ys = xs @ [z]" "zs = [] \<Longrightarrow> last ys = z"
      by (simp_all add: z)
    moreover have "(if cur = ''/'' \<or> cur = [] then ''/'' @ z else path_join cur z) = render (xs @ [z])"
      using folder_path [OF goodz] unfolding xs(1) .
    ultimately show ?thesis
      using rd True ent rem(2-4)
      by (auto simp: rem(1) entry_of_def folder_of_def xs(3) ys(3) Let_def simp del: append_Cons)
  qed
qed

lemma list_nodes_all:
  assumes "canonical cur" and "\<forall>(k, n) \<in> set ns. canonical k \<and> k \<noteq> ''/''"
  shows "list_nodes up cur (dir_of cur) ns es fs =
    (es @ List.map_filter (entry_of up cur) ns,
     foldl (\<lambda>m p. AList.update p True m) fs (List.map_filter (folder_of up cur) ns))"
  using assms(2)
proof (induction ns arbitrary: es fs)
  case (Cons kn ns)
  obtain k n where kn: "kn = (k, n)" by fastforce
  with Cons.prems have k: "canonical k" "k \<noteq> ''/''" by auto
  have IH: "list_nodes up cur (dir_of cur) ns es' fs' =
    (es' @ List.map_filter (entry_of up cur) ns,
     foldl (\<lambda>m p. AList.update p True m) fs' (List.map_filter (folder_of up cur) ns))" for es' fs'
    using Cons by auto
  show ?case
    unfolding kn list_nodes_step [OF assms(1) k] IH
    by (cases "entry_of up cur (k, n)"; cases "folder_of up cur (k, n)") (simp_all add: map_filter_simps)
qed (simp add: map_filter_simps)

text \<open>Under a path that is not canonical there is nothing to show.\<close>

lemma list_nodes_none:
  assumes "rooted cur" "\<not> canonical cur" and "\<forall>(k, n) \<in> set ns. canonical k \<and> k \<noteq> ''/''"
  shows "list_nodes up cur (dir_of cur) ns es fs = (es, fs)"
  using assms(3)
proof (induction ns)
  case (Cons kn ns)
  obtain k n where kn: "kn = (k, n)" by fastforce
  with Cons.prems have "canonical k" by auto
  then have "\<not> hasPrefix k (cur @ ''/'')"
    using prefix_slash_iff [OF assms(1)] assms(2) by blast
  moreover have "dir_of cur = cur @ ''/''"
    using assms(1,2) by (auto simp: dir_of_def)
  ultimately show ?case using Cons kn by simp
qed simp

lemma foldl_update_keys:
  "map fst (foldl (\<lambda>m p. AList.update p True m) m ps) =
     foldl (\<lambda>ks p. if p \<in> set ks then ks else ks @ [p]) (map fst m) ps"
  by (induction ps arbitrary: m) (simp_all add: update_keys)

lemma foldl_keys:
  "distinct ks \<Longrightarrow> distinct (foldl (\<lambda>ks p. if p \<in> set ks then ks else ks @ [p]) ks ps) \<and>
     set (foldl (\<lambda>ks p. if p \<in> set ks then ks else ks @ [p]) ks ps) = set ks \<union> set ps"
  by (induction ps arbitrary: ks) auto

lemma folder_set:
  "distinct (map fst (foldl (\<lambda>m p. AList.update p True m) [] ps))"
  "set (map fst (foldl (\<lambda>m p. AList.update p True m) [] ps)) = set ps"
  using foldl_keys [of "[]" ps] by (simp_all add: foldl_update_keys)

section \<open>The lists on the page\<close>

text \<open>The two lists of the folder view before sorting.\<close>

definition page_entries :: "UserPermissions option \<Rightarrow> string \<Rightarrow> (string, VaultNode) gomap \<Rightarrow> UISecret list" where
  "page_entries up cur ns = fst (list_nodes up cur (dir_of cur) ns [] [])"

definition page_folders :: "UserPermissions option \<Rightarrow> string \<Rightarrow> (string, VaultNode) gomap \<Rightarrow> UIFolder list" where
  "page_folders up cur ns =
     map (\<lambda>fp. \<lparr>uf_Name = path_base fp, uf_Path = fp\<rparr>)
       (map fst (snd (list_nodes up cur (dir_of cur) ns [] [])))"

lemma folder_view:
  "Entries (buildTreeState t p [] up) = sort_key us_Name (page_entries up (normalizePath p) (nodes_of t))"
  "Folders (buildTreeState t p [] up) = sort_key uf_Name (page_folders up (normalizePath p) (nodes_of t))"
proof -
  have "normalizePath [] = ''/''" by (simp add: normalizePath_def)
  then show "Entries (buildTreeState t p [] up) = sort_key us_Name (page_entries up (normalizePath p) (nodes_of t))"
    and "Folders (buildTreeState t p [] up) = sort_key uf_Name (page_folders up (normalizePath p) (nodes_of t))"
    by (simp_all add: buildTreeState_def page_entries_def page_folders_def dir_of_def
        zero_state_def case_prod_unfold comp_def Let_def)
qed

lemma mem_map_filter: "x \<in> set (List.map_filter f xs) \<longleftrightarrow> (\<exists>y \<in> set xs. f y = Some x)"
  by (induction xs) (auto simp: map_filter_simps split: option.splits)

lemma strict_prefix_app [simp]: "strict_prefix xs (xs @ z # zs)"
  by (simp add: strict_prefix_def)

lemma strict_prefix_Suc: "strict_prefix xs ys \<and> length ys = Suc (length xs) \<longleftrightarrow> (\<exists>z. ys = xs @ [z])"
proof
  assume "strict_prefix xs ys \<and> length ys = Suc (length xs)"
  then obtain z zs where "ys = xs @ z # zs" "length ys = Suc (length xs)"
    by (metis strict_prefixE')
  then show "\<exists>z. ys = xs @ [z]" by simp
qed auto

text \<open>The meaning of the lists, for a canonical current path and a well-formed tree.\<close>

lemma page_entries_set:
  assumes "tree_ok t" "canonical cur"
  shows "set (page_entries up cur (nodes_of t)) =
    {\<lparr>us_Path = k, us_Name = z\<rparr> | k z n. map_of (nodes_of t) k = Some n \<and> \<not> IsFolder n \<and>
       readable up k \<and> abs_path k = abs_path cur @ [z]}" (is "?l = ?r")
proof -
  have all: "\<forall>(k, n) \<in> set (nodes_of t). canonical k \<and> k \<noteq> ''/''"
    using tree_okD(2) [OF assms(1)] by blast
  have look: "map_of (nodes_of t) k = Some n \<longleftrightarrow> (k, n) \<in> set (nodes_of t)" for k n
    using map_of_iff_mem [OF tree_okD(1) [OF assms(1)]] .
  have f: "entry_of up cur (k, n) = Some e \<longleftrightarrow>
      (\<exists>z. abs_path k = abs_path cur @ [z] \<and> readable up k \<and> \<not> IsFolder n \<and> e = \<lparr>us_Path = k, us_Name = z\<rparr>)" for k n e
  proof -
    have "entry_of up cur (k, n) = Some e \<longleftrightarrow>
        (\<exists>z. abs_path k = abs_path cur @ [z]) \<and> readable up k \<and> \<not> IsFolder n \<and>
        e = \<lparr>us_Path = k, us_Name = last (abs_path k)\<rparr>"
      unfolding strict_prefix_Suc [symmetric] by (auto simp: entry_of_def shown_def is_entry_def)
    then show ?thesis by auto
  qed
  have "set (page_entries up cur (nodes_of t)) = set (List.map_filter (entry_of up cur) (nodes_of t))"
    by (simp add: page_entries_def list_nodes_all [OF assms(2) all])
  also have "\<dots> = ?r"
  proof (intro set_eqI iffI)
    fix e assume "e \<in> set (List.map_filter (entry_of up cur) (nodes_of t))"
    then obtain k n z where "(k, n) \<in> set (nodes_of t)" "abs_path k = abs_path cur @ [z]" "readable up k"
      "\<not> IsFolder n" "e = \<lparr>us_Path = k, us_Name = z\<rparr>"
      by (auto simp: mem_map_filter f)
    with look show "e \<in> ?r" by blast
  next
    fix e assume "e \<in> ?r"
    then obtain k n z where "(k, n) \<in> set (nodes_of t)" "abs_path k = abs_path cur @ [z]" "readable up k"
      "\<not> IsFolder n" "e = \<lparr>us_Path = k, us_Name = z\<rparr>"
      using look by blast
    moreover from this have "entry_of up cur (k, n) = Some e" using f by blast
    ultimately show "e \<in> set (List.map_filter (entry_of up cur) (nodes_of t))"
      unfolding mem_map_filter by blast
  qed
  finally show ?thesis .
qed

lemma page_folders_set:
  assumes "tree_ok t" "canonical cur"
  shows "set (page_folders up cur (nodes_of t)) =
    {\<lparr>uf_Name = z, uf_Path = render (abs_path cur @ [z])\<rparr> | z. \<exists>k n zs. map_of (nodes_of t) k = Some n \<and>
       readable up k \<and> abs_path k = abs_path cur @ z # zs \<and> (zs \<noteq> [] \<or> IsFolder n)}" (is "?l = ?r")
proof -
  have all: "\<forall>(k, n) \<in> set (nodes_of t). canonical k \<and> k \<noteq> ''/''"
    using tree_okD(2) [OF assms(1)] by blast
  have look: "map_of (nodes_of t) k = Some n \<longleftrightarrow> (k, n) \<in> set (nodes_of t)" for k n
    using map_of_iff_mem [OF tree_okD(1) [OF assms(1)]] .
  have base: "path_base (render (abs_path cur @ [z])) = z" if "abs_path k = abs_path cur @ z # zs" for k z zs
    using that abs_path_good [of k] by (intro path_base_render) simp
  have f: "folder_of up cur (k, n) = Some fp \<longleftrightarrow>
      (\<exists>z zs. abs_path k = abs_path cur @ z # zs \<and> readable up k \<and> (zs \<noteq> [] \<or> IsFolder n) \<and>
         fp = render (abs_path cur @ [z]))" for k n fp
    by (auto simp: folder_of_def shown_def is_entry_def elim!: strict_prefixE')
  have keys: "set (map fst (snd (list_nodes up cur (dir_of cur) (nodes_of t) [] []))) =
      set (List.map_filter (folder_of up cur) (nodes_of t))"
    by (simp only: list_nodes_all [OF assms(2) all] snd_conv folder_set)
  have "set (page_folders up cur (nodes_of t)) =
      (\<lambda>fp. \<lparr>uf_Name = path_base fp, uf_Path = fp\<rparr>) ` set (List.map_filter (folder_of up cur) (nodes_of t))"
    unfolding page_folders_def by (subst set_map) (simp only: keys)
  also have "\<dots> = ?r"
  proof (intro set_eqI iffI)
    fix x assume "x \<in> (\<lambda>fp. \<lparr>uf_Name = path_base fp, uf_Path = fp\<rparr>) ` set (List.map_filter (folder_of up cur) (nodes_of t))"
    then obtain k n z zs where k: "(k, n) \<in> set (nodes_of t)" "abs_path k = abs_path cur @ z # zs" "readable up k"
      "zs \<noteq> [] \<or> IsFolder n" "x = \<lparr>uf_Name = path_base (render (abs_path cur @ [z])), uf_Path = render (abs_path cur @ [z])\<rparr>"
      by (auto simp: mem_map_filter f)
    then have "x = \<lparr>uf_Name = z, uf_Path = render (abs_path cur @ [z])\<rparr>"
      by (simp add: base [OF k(2)])
    with k(1-4) look show "x \<in> ?r" by blast
  next
    fix x assume "x \<in> ?r"
    then obtain k n z zs where k: "(k, n) \<in> set (nodes_of t)" "abs_path k = abs_path cur @ z # zs" "readable up k"
      "zs \<noteq> [] \<or> IsFolder n" and x: "x = \<lparr>uf_Name = z, uf_Path = render (abs_path cur @ [z])\<rparr>"
      using look by blast
    then have "folder_of up cur (k, n) = Some (render (abs_path cur @ [z]))"
      using f by blast
    with k(1) have "render (abs_path cur @ [z]) \<in> set (List.map_filter (folder_of up cur) (nodes_of t))"
      unfolding mem_map_filter by blast
    with x base [OF k(2)] show "x \<in> (\<lambda>fp. \<lparr>uf_Name = path_base fp, uf_Path = fp\<rparr>) `
        set (List.map_filter (folder_of up cur) (nodes_of t))"
      by (intro image_eqI [where x = "render (abs_path cur @ [z])"]) auto
  qed
  finally show ?thesis .
qed

section \<open>The order of the lists\<close>

lemma distinct_through:
  assumes "distinct (map g xs)" and "\<And>x. x \<in> set xs \<Longrightarrow> g x = h (f x)"
  shows "distinct (map f xs)"
proof -
  have "map g xs = map h (map f xs)"
    using assms(2) by simp
  with assms(1) show ?thesis by (metis distinct_map)
qed

lemma sort_key_set_unique:
  assumes "set xs = set ys" "distinct (map f xs)" "distinct (map f ys)"
  shows "sort_key f xs = sort_key f ys"
proof (rule sort_key_inj_key_eq)
  have "mset xs = mset ys"
    using assms by (simp add: set_eq_iff_mset_eq_distinct distinct_map)
  then show "mset xs = mset (sort_key f ys)" by simp
  show "inj_on f (set xs)"
    using assms(2) by (simp add: distinct_map)
qed simp

lemma entry_paths_distinct:
  "wf_map ns \<Longrightarrow> distinct (map us_Path (List.map_filter (entry_of up cur) ns))"
proof (induction ns)
  case (Cons kn ns)
  obtain k n where kn: "kn = (k, n)" by fastforce
  have "us_Path e \<in> fst ` set ns" if "e \<in> set (List.map_filter (entry_of up cur) ns)" for e
    using that by (force simp: mem_map_filter entry_of_def split: if_splits)
  then have "k \<notin> us_Path ` set (List.map_filter (entry_of up cur) ns)"
    using Cons.prems kn by (auto simp: wf_map_def)
  moreover have "us_Path e = k" if "entry_of up cur (k, n) = Some e" for e
    using that by (auto simp: entry_of_def split: if_splits)
  ultimately show ?case
    using Cons kn by (cases "entry_of up cur (k, n)") (auto simp: map_filter_simps wf_map_def)
qed (simp add: map_filter_simps)

lemma page_names_distinct:
  assumes "tree_ok t" "canonical cur"
  shows "distinct (map us_Name (page_entries up cur (nodes_of t)))"
    and "distinct (map uf_Name (page_folders up cur (nodes_of t)))"
proof -
  have all: "\<forall>(k, n) \<in> set (nodes_of t). canonical k \<and> k \<noteq> ''/''"
    using tree_okD(2) [OF assms(1)] by blast
  let ?h = "\<lambda>z. render (abs_path cur @ [z])"
  show "distinct (map us_Name (page_entries up cur (nodes_of t)))"
  proof (rule distinct_through [where g = us_Path and h = ?h])
    show "distinct (map us_Path (page_entries up cur (nodes_of t)))"
      using entry_paths_distinct [OF tree_okD(1) [OF assms(1)]]
      by (simp add: page_entries_def list_nodes_all [OF assms(2) all])
    fix e assume "e \<in> set (page_entries up cur (nodes_of t))"
    then obtain k z n where "e = \<lparr>us_Path = k, us_Name = z\<rparr>" "map_of (nodes_of t) k = Some n"
      "abs_path k = abs_path cur @ [z]"
      unfolding page_entries_set [OF assms] by blast
    moreover from this(2) all have "canonical k" by (auto dest: map_of_SomeD)
    ultimately show "us_Path e = ?h (us_Name e)" by (simp add: canonical_def)
  qed
  show "distinct (map uf_Name (page_folders up cur (nodes_of t)))"
  proof (rule distinct_through [where g = uf_Path and h = ?h])
    have "map uf_Path (page_folders up cur (nodes_of t)) = map fst (snd (list_nodes up cur (dir_of cur) (nodes_of t) [] []))"
      by (simp add: page_folders_def)
    then show "distinct (map uf_Path (page_folders up cur (nodes_of t)))"
      using folder_set(1) by (simp only: list_nodes_all [OF assms(2) all] snd_conv)
    fix f assume "f \<in> set (page_folders up cur (nodes_of t))"
    then show "uf_Path f = ?h (uf_Name f)"
      unfolding page_folders_set [OF assms] by auto
  qed
qed

lemma buildTreeState_same:
  assumes "tree_ok t" "tree_ok t'"
    and "\<And>k. readable up k \<Longrightarrow>
      map_option IsFolder (map_of (nodes_of t) k) = map_option IsFolder (map_of (nodes_of t') k)"
  shows "buildTreeState t cp ep up = buildTreeState t' cp ep up"
proof -
  let ?cur = "normalizePath cp"
  have kinds: "(\<exists>n. map_of (nodes_of t) k = Some n \<and> P (IsFolder n)) \<longleftrightarrow>
      (\<exists>n. map_of (nodes_of t') k = Some n \<and> P (IsFolder n))" if "readable up k" for k P
    using assms(3) [OF that] by (cases "map_of (nodes_of t) k"; cases "map_of (nodes_of t') k") auto
  have page: "sort_key us_Name (page_entries up ?cur (nodes_of t)) = sort_key us_Name (page_entries up ?cur (nodes_of t')) \<and>
      sort_key uf_Name (page_folders up ?cur (nodes_of t)) = sort_key uf_Name (page_folders up ?cur (nodes_of t'))"
  proof (cases "canonical ?cur")
    case True
    have "set (page_entries up ?cur (nodes_of t)) = set (page_entries up ?cur (nodes_of t'))"
      unfolding page_entries_set [OF assms(1) True] page_entries_set [OF assms(2) True]
      using kinds [of _ Not] by blast
    moreover have "set (page_folders up ?cur (nodes_of a)) \<subseteq> set (page_folders up ?cur (nodes_of b))"
      if oka: "tree_ok a" and okb: "tree_ok b" and same: "\<And>k. readable up k \<Longrightarrow>
        map_option IsFolder (map_of (nodes_of a) k) = map_option IsFolder (map_of (nodes_of b) k)" for a b
    proof
      fix f assume "f \<in> set (page_folders up ?cur (nodes_of a))"
      then obtain z k n zs where f: "f = \<lparr>uf_Name = z, uf_Path = render (abs_path ?cur @ [z])\<rparr>"
        and k: "map_of (nodes_of a) k = Some n" "readable up k" "abs_path k = abs_path ?cur @ z # zs"
          "zs \<noteq> [] \<or> IsFolder n"
        unfolding page_folders_set [OF oka True] by blast
      then obtain n' where "map_of (nodes_of b) k = Some n'" "zs \<noteq> [] \<or> IsFolder n'"
        using same [OF k(2)] by (cases "map_of (nodes_of b) k") auto
      with f k(2,3) show "f \<in> set (page_folders up ?cur (nodes_of b))"
        unfolding page_folders_set [OF okb True] by blast
    qed
    then have "set (page_folders up ?cur (nodes_of t)) = set (page_folders up ?cur (nodes_of t'))"
      using assms by (intro subset_antisym) simp_all
    ultimately show ?thesis
      using page_names_distinct [OF assms(1) True] page_names_distinct [OF assms(2) True]
      by (intro conjI sort_key_set_unique)
  next
    case False
    have "\<forall>(k, n) \<in> set (nodes_of t). canonical k \<and> k \<noteq> ''/''" "\<forall>(k, n) \<in> set (nodes_of t'). canonical k \<and> k \<noteq> ''/''"
      using tree_okD(2) assms(1,2) by blast+
    then show ?thesis
      using list_nodes_none [OF _ False, of _ up "[]" "[]"]
      by (simp add: page_entries_def page_folders_def)
  qed
  have entry: "(case map_of (nodes_of t) k of None \<Rightarrow> d | Some n \<Rightarrow> if \<not> IsFolder n \<and> readable up k then x else d) =
      (case map_of (nodes_of t') k of None \<Rightarrow> d | Some n \<Rightarrow> if \<not> IsFolder n \<and> readable up k then x else d)"
    and folder: "(case map_of (nodes_of t) k of None \<Rightarrow> e | Some n \<Rightarrow> if IsFolder n \<and> readable up k then y else e) =
      (case map_of (nodes_of t') k of None \<Rightarrow> e | Some n \<Rightarrow> if IsFolder n \<and> readable up k then y else e)"
    for k d x and e y :: "UIFolderDetail option"
    using assms(3) [of k] by (cases "map_of (nodes_of t) k"; cases "map_of (nodes_of t') k"; auto)+
  show ?thesis
    using page unfolding buildTreeState_def Let_def entry folder
    by (simp add: page_entries_def page_folders_def dir_of_def case_prod_unfold comp_def)
qed

section \<open>Properties\<close>

text \<open>
  (C29) The folder view shows exactly what is there and may be read: the entries are the
  readable secrets directly under the path, the folders are the children under which
  something readable lies, each once, both in the bytewise order of their names.
\<close>

theorem folder_view_exact:
  assumes "tree_ok t" "canonical (normalizePath p)"
  shows "set (Entries (buildTreeState t p [] up)) =
      {\<lparr>us_Path = k, us_Name = z\<rparr> | k z n. map_of (nodes_of t) k = Some n \<and> \<not> IsFolder n \<and>
         readable up k \<and> abs_path k = locate p @ [z]} \<and>
    set (Folders (buildTreeState t p [] up)) =
      {\<lparr>uf_Name = z, uf_Path = render (locate p @ [z])\<rparr> | z. \<exists>k n zs. map_of (nodes_of t) k = Some n \<and>
         readable up k \<and> abs_path k = locate p @ z # zs \<and> (zs \<noteq> [] \<or> IsFolder n)} \<and>
    sorted (map us_Name (Entries (buildTreeState t p [] up))) \<and>
    distinct (map us_Name (Entries (buildTreeState t p [] up))) \<and>
    sorted (map uf_Name (Folders (buildTreeState t p [] up))) \<and>
    distinct (map uf_Name (Folders (buildTreeState t p [] up)))"
proof -
  have sorted_distinct: "distinct (map f (sort_key f xs)) = distinct (map f xs)" for f :: "'x \<Rightarrow> string" and xs
    by (simp add: distinct_map)
  show ?thesis
    using page_entries_set [OF assms] page_folders_set [OF assms] page_names_distinct [OF assms]
    by (simp add: folder_view sorted_distinct locate_def)
qed

definition two_secrets :: VaultTree where
  "two_secrets = \<lparr>Nodes = Some
     [(''/db/pass'', \<lparr>Value = ''pw'', IsFolder = False\<rparr>), (''/db/adm/key'', \<lparr>Value = ''ak'', IsFolder = False\<rparr>),
      (''/web'', \<lparr>Value = ''w'', IsFolder = False\<rparr>)]\<rparr>"

definition db_user :: UserPermissions where
  "db_user = \<lparr>username = ''ann'', isAdmin = False, patterns = [''/db/*'']\<rparr>"

lemma tree_ok_code:
  "tree_ok t \<longleftrightarrow> distinct (map fst (nodes_of t)) \<and>
     list_all (\<lambda>(k, n). canonical k \<and> k \<noteq> ''/'') (nodes_of t) \<and>
     list_all (\<lambda>(k, n). IsFolder n \<or> list_all (\<lambda>(l, m). \<not> below k l) (nodes_of t)) (nodes_of t)"
  by (auto simp: tree_ok_def wf_map_def list_all_iff)

lemma two_secrets_ok: "tree_ok two_secrets"
  unfolding tree_ok_code by code_simp

theorem folder_view_exact_witness:
  "\<lparr>us_Path = ''/db/pass'', us_Name = ''pass''\<rparr> \<in> set (Entries (buildTreeState two_secrets ''db'' [] (Some db_user))) \<and>
   (\<forall>x. \<lparr>us_Path = ''/web'', us_Name = x\<rparr> \<notin> set (Entries (buildTreeState two_secrets [] [] (Some db_user))))"
proof
  have c: "canonical (normalizePath ''db'')" "canonical (normalizePath [])"
    and l: "map_of (nodes_of two_secrets) ''/db/pass'' = Some \<lparr>Value = ''pw'', IsFolder = False\<rparr>"
    and r: "readable (Some db_user) ''/db/pass''" and a: "abs_path ''/db/pass'' = locate ''db'' @ [''pass'']"
    and w: "\<not> readable (Some db_user) ''/web''"
    by code_simp+
  from folder_view_exact [OF two_secrets_ok c(1), of "Some db_user"] l r a
  show "\<lparr>us_Path = ''/db/pass'', us_Name = ''pass''\<rparr> \<in> set (Entries (buildTreeState two_secrets ''db'' [] (Some db_user)))"
    by fastforce
  from folder_view_exact [OF two_secrets_ok c(2), of "Some db_user"] w
  show "\<forall>x. \<lparr>us_Path = ''/web'', us_Name = x\<rparr> \<notin> set (Entries (buildTreeState two_secrets [] [] (Some db_user)))"
    by auto
qed

text \<open>
  Non-interference: what the interface shows to a user, in either view, depends neither
  on the value of any secret nor on any node the user may not read: two well-formed trees
  that have the same readable nodes, with the same kinds, give the same state.
\<close>

lemma buildTreeState_noninterference:
  assumes "tree_ok t" "tree_ok t'"
    and "\<And>k. readable up k \<Longrightarrow>
      map_option IsFolder (map_of (nodes_of t) k) = map_option IsFolder (map_of (nodes_of t') k)"
  shows "buildTreeState t cp ep up = buildTreeState t' cp ep up"
  by (rule buildTreeState_same [OF assms])

text \<open>The other secret may be absent or different; the readable one may have another value.\<close>

end
