(* ===== verification/Admin_Page.thy ===== *)
theory Admin_Page
  imports Html_Template Tree_View
begin

text \<open>
  The page of the web interface (ui.go: the constant \<^verbatim>\<open>adminHTML\<close>), in full: its text, its
  conditions and loops, and its actions as pieces of \<^theory_text>\<open>Html_Template\<close>. The text between two
  actions is copied from the source, line breaks included.
\<close>

section \<open>The template\<close>

definition crumb_item :: "Breadcrumb \<Rightarrow> piece list" where
  "crumb_item b =
   [Static ''
                    <span>/</span>
                    ''] @
   (if bc_IsLast b then [Static ''
                        <span>'', Escaped (bc_Name b), Static ''</span>
                    '']
    else [Static ''
                        <a href=\"/?path='', Query (bc_Path b), Static ''\">'', Escaped (bc_Name b), Static ''</a>
                    '']) @
   [Static ''
                '']"

definition breadcrumb_bar :: "UIState \<Rightarrow> piece list" where
  "breadcrumb_bar st =
   [Static ''
            <div class=\"breadcrumb\">
                <a href=\"/\">root</a>
                ''] @ concat (map crumb_item (Breadcrumbs st))"

definition entry_view :: "UIState \<Rightarrow> piece list" where
  "entry_view st =
   breadcrumb_bar st @
   [Static ''
            </div>
            <a href=\"/?path='', Query (ParentPath st), Static ''\"><button class=\"secondary\">&larr; Back to folder</button></a>
            <h2>Entry: '', Escaped (EntryPath st), Static ''</h2>
            <div class=\"detail-box\">
                <div class=\"detail-row\">
                    <div class=\"detail-label\">Vault Path</div>
                    <div class=\"detail-value\">'', Escaped (EntryPath st), Static ''</div>
                </div>
                <div class=\"detail-row\">
                    <div class=\"detail-label\">Value</div>
                    <div class=\"detail-value masked\">********</div>
                </div>
                <div style=\"margin-top: 20px;\">
                    <form action=\"/delete\" method=\"POST\" style=\"display: inline;\" onsubmit=\"return confirm('Delete this secret?');\">
                        <input type=\"hidden\" name=\"path\" value=\"'', Escaped (EntryPath st), Static ''\">
                        <button type=\"submit\" class=\"delete\">Delete Secret</button>
                    </form>
                </div>
            </div>
        '']"

definition folder_detail :: "UIState \<Rightarrow> UIFolderDetail \<Rightarrow> piece list" where
  "folder_detail st d =
   [Static ''
            <div class=\"detail-box\" style=\"margin-bottom: 20px;\">
                <div class=\"detail-row\">
                    <div class=\"detail-label\">Folder Info</div>
                    <div class=\"detail-value\">Path: '', Escaped (ufd_Path d), Static ''</div>
                </div>
                <div style=\"margin-top: 10px;\">
                    <form action=\"/delete\" method=\"POST\" style=\"display: inline;\" onsubmit=\"return confirm('Delete this folder?');\">
                        <input type=\"hidden\" name=\"path\" value=\"'', Escaped (CurrentPath st), Static ''\">
                        <button type=\"submit\" class=\"delete\">Delete Folder</button>
                    </form>
                </div>
            </div>
            '']"

definition folder_item :: "UIFolder \<Rightarrow> piece list" where
  "folder_item x =
   [Static ''
                <li class=\"tree-item folder\">
                    <a href=\"/?path='', Query (uf_Path x), Static ''\" class=\"tree-name\">
                        <span class=\"tree-icon\">&#128193;</span>'', Escaped (uf_Name x), Static ''
                    </a>
                </li>
                '']"

definition entry_item :: "UISecret \<Rightarrow> piece list" where
  "entry_item x =
   [Static ''
                <li class=\"tree-item\">
                    <a href=\"/entry?path='', Query (us_Path x), Static ''\" class=\"tree-name\">
                        <span class=\"tree-icon\">&#128196;</span>'', Escaped (us_Name x), Static ''
                    </a>
                </li>
                '']"

definition listing_view :: "UIState \<Rightarrow> piece list" where
  "listing_view st =
   breadcrumb_bar st @
   [Static ''
            </div>
            <h3>Contents of '', if CurrentPath st \<noteq> [] then Escaped (CurrentPath st) else Static ''root'', Static ''</h3>

            ''] @
   (case Folder st of None \<Rightarrow> [] | Some d \<Rightarrow> folder_detail st d) @
   [Static ''

            <ul class=\"tree-list\">
                ''] @
   concat (map folder_item (Folders st)) @
   [Static ''
                ''] @
   concat (map entry_item (Entries st)) @
   [Static ''
                ''] @
   (if Folders st = [] \<and> Entries st = [] \<and> Folder st = None then [Static ''
                <li class=\"tree-item\">No items in this folder.</li>
                ''] else []) @
   [Static ''
            </ul>
        '']"

definition page_head :: "piece list" where
  "page_head =
   [Static ''
<!DOCTYPE html>
<html>
<head>
    <title>CSI Secret Age Admin</title>
    <style>
        body { font-family: sans-serif; max-width: 900px; margin: 0 auto; padding: 20px; }
        a { text-decoration: none; color: #007bff; }
        a:hover { text-decoration: underline; }
        table { width: 100%; border-collapse: collapse; margin-top: 20px; }
        th, td { border: 1px solid #ddd; padding: 10px; text-align: left; }
        th { background-color: #f2f2f2; }
        .form-group { margin-bottom: 15px; }
        label { display: block; margin-bottom: 5px; font-weight: bold; }
        input[type=\"text\"], input[type=\"password\"], textarea { width: 100%; padding: 8px; box-sizing: border-box; }
        button { padding: 10px 15px; background-color: #007bff; color: white; border: none; cursor: pointer; border-radius: 4px; }
        button:hover { background-color: #0056b3; }
        button.delete { background-color: #dc3545; }
        button.delete:hover { background-color: #c82333; }
        button.secondary { background-color: #6c757d; }
        button.secondary:hover { background-color: #545b62; }
        .header { display: flex; justify-content: space-between; align-items: center; }
        .masked { color: #888; font-family: monospace; letter-spacing: 2px; }
        .alert { padding: 15px; background-color: #f8d7da; color: #721c24; border: 1px solid #f5c6cb; border-radius: 4px; margin-bottom: 20px;}
        .lock-container { border: 1px solid #ddd; padding: 30px; border-radius: 8px; background-color: #f9f9f9; text-align: center; }
        .breadcrumb { margin-bottom: 20px; font-size: 14px; }
        .breadcrumb a { color: #007bff; }
        .breadcrumb span { color: #666; margin: 0 5px; }
        .tree-list { list-style: none; padding: 0; margin: 0; }
        .tree-item { padding: 10px; border: 1px solid #ddd; margin-bottom: 5px; border-radius: 4px; display: flex; align-items: center; justify-content: space-between; }
        .tree-item:hover { background-color: #f8f9fa; }
        .tree-item.folder { background-color: #e9ecef; }
        .tree-item.folder:hover { background-color: #dee2e6; }
        .tree-icon { margin-right: 10px; font-size: 18px; }
        .tree-name { font-weight: 500; flex: 1; }
        .entry-meta { color: #666; font-size: 12px; }
        .detail-box { border: 1px solid #ddd; padding: 20px; border-radius: 8px; background-color: #f9f9f9; }
        .detail-row { margin-bottom: 15px; }
        .detail-label { font-weight: bold; color: #555; margin-bottom: 5px; }
        .detail-value { font-family: monospace; background: #fff; padding: 8px; border: 1px solid #ddd; border-radius: 4px; }
        .folder-badge { display: inline-block; background: #e9ecef; padding: 2px 8px; border-radius: 4px; font-size: 12px; margin-left: 8px; }
    </style>
</head>
<body>
    <div class=\"header\">
        <h1>Age-Encrypted Vault</h1>
        <div>
            '']"

definition unlock_form :: "piece list" where
  "unlock_form =
   [Static ''
    <div class=\"lock-container\">
        <h2>Vault is Locked </h2>
        <p>The Age Master Key was not provided at startup or could not be fetched from the Cloud KMS.</p>
        <p>Pods requesting secrets will remain in <code>ContainerCreating</code> state until unlocked.</p>
        
        <form action=\"/unlock\" method=\"POST\" style=\"margin-top: 20px; text-align: left;\">
            <div class=\"form-group\">
                <label>Enter Master Key (AGE-SECRET-KEY-1...)</label>
                <input type=\"password\" name=\"master_key\" required placeholder=\"Paste your age master key here\">
            </div>
            <button type=\"submit\" style=\"width: 100%;\">Unlock Vault</button>
        </form>
    </div>
    '']"

definition update_form :: "piece list" where
  "update_form =
   [Static ''

    <hr style=\"margin: 40px 0;\">

    <h3>Add / Update</h3>
    <form action=\"/update\" method=\"POST\">
        <div class=\"form-group\">
            <label>Path</label>
            <input type=\"text\" name=\"path\" required placeholder=\"e.g., /db/postgres/password\">
        </div>
        <div class=\"form-group\">
            <label>
                <input type=\"checkbox\" name=\"is_folder\" value=\"true\">
                Create as folder (no secret value, acts as a namespace grouping only)
            </label>
        </div>
        <div class=\"form-group\" id=\"value-group\">
            <label>Secret Value</label>
            <textarea name=\"value\" rows=\"4\" placeholder=\"Will be securely encrypted. Cannot be read back from the UI.\"></textarea>
        </div>
        <button type=\"submit\">Save</button>
    </form>
    <script>
        document.querySelector('input[name=\"is_folder\"]').addEventListener('change', function() {
            var group = document.getElementById('value-group');
            if (this.checked) {
                group.style.display = 'none';
                group.querySelector('textarea').removeAttribute('required');
            } else {
                group.style.display = 'block';
                group.querySelector('textarea').setAttribute('required', 'required');
            }
        });
    </script>
    '']"

definition adminHTML :: "UIState \<Rightarrow> piece list" where
  "adminHTML st =
   page_head @
   (if Locked st then [] else [Static ''
            <a href=\"/export\" download=\"vault.age\"><button>Export Backup (.age)</button></a>
            '']) @
   [Static ''
            <button onclick=\"location.reload()\" class=\"secondary\">Refresh</button>
        </div>
    </div>

    ''] @
   (if Error st = [] then [] else [Static ''
    <div class=\"alert\">
        <strong>Error:</strong> '', Escaped (Error st), Static ''
    </div>
    '']) @
   [Static ''

    ''] @
   (if Locked st then unlock_form else
    [Static ''
        ''] @ (if IsEntryView st then entry_view st else listing_view st) @ update_form) @
   [Static ''
</body>
</html>
'']"


section \<open>Markup\<close>

text \<open>
  What of a state can show in the markup of its page: which conditions hold, and the
  lengths of the lists. \<open>blank\<close> keeps this and erases every text.
\<close>

definition blank_text :: "string \<Rightarrow> string" where
  "blank_text s = (if s = [] then [] else ''x'')"

definition blank :: "UIState \<Rightarrow> UIState" where
  "blank st =
     st\<lparr>Error := blank_text (Error st), CurrentPath := blank_text (CurrentPath st), CurrentName := [],
        ParentPath := [], Folders := map (\<lambda>f. \<lparr>uf_Name = [], uf_Path = []\<rparr>) (Folders st),
        Entries := map (\<lambda>e. no_secret) (Entries st),
        Folder := map_option (\<lambda>d. \<lparr>ufd_Path = []\<rparr>) (Folder st),
        Breadcrumbs := map (\<lambda>b. \<lparr>bc_Name = [], bc_Path = [], bc_IsLast = bc_IsLast b\<rparr>) (Breadcrumbs st),
        EntryPath := [], Entry := no_secret\<rparr>"

lemma blank_fields:
  "Locked (blank st) = Locked st" "IsEntryView (blank st) = IsEntryView st"
  "Error (blank st) = blank_text (Error st)" "CurrentPath (blank st) = blank_text (CurrentPath st)"
  "Folders (blank st) = map (\<lambda>f. \<lparr>uf_Name = [], uf_Path = []\<rparr>) (Folders st)"
  "Entries (blank st) = map (\<lambda>e. no_secret) (Entries st)"
  "Folder (blank st) = map_option (\<lambda>d. \<lparr>ufd_Path = []\<rparr>) (Folder st)"
  "Breadcrumbs (blank st) = map (\<lambda>b. \<lparr>bc_Name = [], bc_Path = [], bc_IsLast = bc_IsLast b\<rparr>) (Breadcrumbs st)"
  by (simp_all add: blank_def)

lemma blank_text_Nil [simp]: "blank_text s = [] \<longleftrightarrow> s = []"
  by (simp add: blank_text_def)

definition page_markup :: "piece list \<Rightarrow> string" where
  "page_markup ps = markup (execute ps)"

lemma page_markup_Nil [simp]: "page_markup [] = []"
  by (simp add: page_markup_def execute_def markup_def)

lemma page_markup_Cons [simp]: "page_markup (p # ps) = markup (emit p) @ page_markup ps"
  by (simp only: page_markup_def execute_def list.map concat.simps markup_append)

lemma page_markup_append [simp]: "page_markup (ps @ qs) = page_markup ps @ page_markup qs"
  by (simp only: page_markup_def execute_def map_append concat_append markup_append)

lemma page_markup_concat:
  "(\<And>x. x \<in> set xs \<Longrightarrow> page_markup (f x) = page_markup (f (g x))) \<Longrightarrow>
    page_markup (concat (map f xs)) = page_markup (concat (map f (map g xs)))"
  by (induction xs) simp_all

lemma crumb_markup: "bc_IsLast b = bc_IsLast b' \<Longrightarrow> page_markup (crumb_item b) = page_markup (crumb_item b')"
  by (simp add: crumb_item_def del: emit.simps)

lemma bar_markup: "page_markup (breadcrumb_bar st) = page_markup (breadcrumb_bar (blank st))"
proof -
  have "page_markup (concat (map crumb_item (Breadcrumbs st))) =
      page_markup (concat (map crumb_item (Breadcrumbs (blank st))))"
    unfolding blank_fields by (rule page_markup_concat) (rule crumb_markup, simp)
  then show ?thesis unfolding breadcrumb_bar_def page_markup_append by simp
qed

lemma item_markup:
  "page_markup (folder_item x) = page_markup (folder_item x')"
  "page_markup (entry_item e) = page_markup (entry_item e')"
  "page_markup (folder_detail st d) = page_markup (folder_detail st' d')"
  by (simp_all add: folder_item_def entry_item_def folder_detail_def del: emit.simps)

lemma entry_view_markup: "page_markup (entry_view st) = page_markup (entry_view (blank st))"
  unfolding entry_view_def page_markup_append bar_markup [of st] by (simp del: emit.simps)

lemma listing_markup: "page_markup (listing_view st) = page_markup (listing_view (blank st))"
proof -
  have title: "page_markup [Static a, if CurrentPath st \<noteq> [] then Escaped (CurrentPath st) else Static r, Static b] =
      page_markup [Static a, if CurrentPath (blank st) \<noteq> [] then Escaped (CurrentPath (blank st)) else Static r, Static b]"
    for a r b
    by (simp add: blank_fields del: emit.simps)
  have detail: "page_markup (case Folder st of None \<Rightarrow> [] | Some d \<Rightarrow> folder_detail st d) =
      page_markup (case Folder (blank st) of None \<Rightarrow> [] | Some d \<Rightarrow> folder_detail (blank st) d)"
  proof (cases "Folder st")
    case (Some d)
    show ?thesis unfolding blank_fields Some option.map option.case by (rule item_markup(3))
  qed (simp add: blank_fields)
  have items: "page_markup (concat (map folder_item (Folders st))) = page_markup (concat (map folder_item (Folders (blank st))))"
    "page_markup (concat (map entry_item (Entries st))) = page_markup (concat (map entry_item (Entries (blank st))))"
    unfolding blank_fields by (rule page_markup_concat, rule item_markup)+
  have empty: "(Folders st = [] \<and> Entries st = [] \<and> Folder st = None) \<longleftrightarrow>
      (Folders (blank st) = [] \<and> Entries (blank st) = [] \<and> Folder (blank st) = None)"
    by (simp add: blank_fields)
  show ?thesis
    unfolding listing_view_def page_markup_append detail items empty bar_markup [of st] by (simp only: title)
qed

section \<open>Properties\<close>

text \<open>
  (C31) No injection: the markup characters of a page (angle brackets and quotes) are those of
  its template, whatever the names, paths and error texts it shows: they depend only on
  which parts are shown and on how many folders, entries and breadcrumbs there are.
\<close>

theorem page_markup_fixed: "markup (execute (adminHTML st)) = markup (execute (adminHTML (blank st)))"
proof -
  have c: "Locked (blank st) = Locked st" "IsEntryView (blank st) = IsEntryView st"
    "Error (blank st) = [] \<longleftrightarrow> Error st = []"
    by (simp_all add: blank_fields)
  have "page_markup (adminHTML st) = page_markup (adminHTML (blank st))"
    unfolding adminHTML_def page_markup_append c
    by (simp add: entry_view_markup [of st] listing_markup [of st] del: emit.simps)
  then show ?thesis by (simp only: page_markup_def)
qed

end
