(* ===== verification/Perm_Load.thy ===== *)
theory Perm_Load
  imports Policy
begin

text \<open>
  Loading the permissions file (permissions.go: \<^verbatim>\<open>Load\<close>). The YAML library is the record
  \<open>yaml\<close> over a type \<open>'n\<close> of nodes: parsing a document into a map of nodes, and the three
  decoders the code calls. A decoder whose target already holds a value takes that value
  and returns, beside its error, what it left in the target.
\<close>

section \<open>The YAML library\<close>

record 'n yaml =
  yaml_parse :: "bytes \<Rightarrow> string + (string, 'n) gomap"
  decode_strings :: "'n \<Rightarrow> string list \<Rightarrow> string option \<times> string list"
  decode_nodes :: "'n \<Rightarrow> string + (string, 'n) gomap"
  decode_table :: "'n \<Rightarrow> (string, string list) gomap \<Rightarrow> string option \<times> (string, string list) gomap"

text \<open>
  What the code relies on: a document or mapping with a repeated key is an error, so
  decoded maps have distinct keys, and decoding a sequence replaces what the slice held.
\<close>

locale yaml_decoder =
  fixes Y :: "'n yaml"
  assumes parse_distinct: "yaml_parse Y d = Inr m \<Longrightarrow> wf_map m"
    and nodes_distinct: "decode_nodes Y n = Inr m \<Longrightarrow> wf_map m"
    and strings_replaced: "decode_strings Y n old = (None, v) \<Longrightarrow> decode_strings Y n old' = (None, v)"

section \<open>Loading\<close>

datatype load_error =
    ReadFileFailed string
  | ParseFailed string
  | AdminListFailed string
  | UserPermissionsFailed string
  | PatternsFailed string string
  | NamespacePermissionsFailed string
  | UnknownKey string

text \<open>The inner loop: the patterns of each user, in the order of \<^verbatim>\<open>range\<close>.\<close>

fun load_users ::
    "'n yaml \<Rightarrow> (string, 'n) gomap \<Rightarrow> (string, string list) gomap \<Rightarrow>
     load_error option \<times> (string, string list) gomap" where
  "load_users Y [] perms = (None, perms)"
| "load_users Y ((userKey, userVal) # rest) perms =
     (case decode_strings Y userVal [] of
        (Some e, ps) \<Rightarrow> (Some (PatternsFailed userKey e), perms)
      | (None, ps) \<Rightarrow> load_users Y rest (AList.update userKey ps perms))"

text \<open>One turn of the outer loop.\<close>

definition load_section ::
    "'n yaml \<Rightarrow> string \<Rightarrow> 'n \<Rightarrow> 'a perm_tables_scheme \<Rightarrow> load_error option \<times> 'a perm_tables_scheme" where
  "load_section Y key node pm =
     (if key = ''admin_users'' then
        (case decode_strings Y node (admins pm) of
           (e, as) \<Rightarrow> (map_option AdminListFailed e, pm\<lparr>admins := as\<rparr>))
      else if key = ''user_permissions'' then
        (case decode_nodes Y node of
           Inl e \<Rightarrow> (Some (UserPermissionsFailed e), pm)
         | Inr userNode \<Rightarrow>
             (case load_users Y userNode (permissions pm) of
                (e, ps) \<Rightarrow> (e, pm\<lparr>permissions := ps\<rparr>)))
      else if key = ''namespace_permissions'' then
        (case decode_table Y node (namespacePermissions pm) of
           (e, t) \<Rightarrow> (map_option NamespacePermissionsFailed e, pm\<lparr>namespacePermissions := t\<rparr>))
      else (Some (UnknownKey key), pm))"

fun load_sections ::
    "'n yaml \<Rightarrow> (string, 'n) gomap \<Rightarrow> 'a perm_tables_scheme \<Rightarrow>
     load_error option \<times> 'a perm_tables_scheme" where
  "load_sections Y [] pm = (None, pm)"
| "load_sections Y ((key, node) # rest) pm =
     (case load_section Y key node pm of
        (Some e, pm') \<Rightarrow> (Some e, pm')
      | (None, pm') \<Rightarrow> load_sections Y rest pm')"

text \<open>The first argument is what reading the file gives at the time of the call.\<close>

definition Load ::
    "'n yaml \<Rightarrow> string + bytes \<Rightarrow> 'a perm_tables_scheme \<Rightarrow> load_error option \<times> 'a perm_tables_scheme" where
  "Load Y contents pm =
     (case contents of
        Inl e \<Rightarrow> (Some (ReadFileFailed e), pm)
      | Inr data \<Rightarrow>
          (case yaml_parse Y data of
             Inl e \<Rightarrow> (Some (ParseFailed e), pm)
           | Inr raw \<Rightarrow>
               load_sections Y raw (pm\<lparr>permissions := [], namespacePermissions := []\<rparr>)))"

section \<open>What a document says\<close>

text \<open>
  The specification: the tables a document denotes, as lookups that do not depend on any
  order, relative to the admin list that was there before.
\<close>

definition doc_admins :: "'n yaml \<Rightarrow> (string, 'n) gomap \<Rightarrow> string list \<Rightarrow> string list" where
  "doc_admins Y raw old =
     (case map_of raw ''admin_users'' of None \<Rightarrow> old | Some n \<Rightarrow> snd (decode_strings Y n old))"

definition doc_user :: "'n yaml \<Rightarrow> (string, 'n) gomap \<Rightarrow> string \<Rightarrow> string list option" where
  "doc_user Y raw u =
     (case map_of raw ''user_permissions'' of
        None \<Rightarrow> None
      | Some n \<Rightarrow>
          (case decode_nodes Y n of
             Inl e \<Rightarrow> None
           | Inr un \<Rightarrow> map_option (\<lambda>v. snd (decode_strings Y v [])) (map_of un u)))"

definition doc_namespace :: "'n yaml \<Rightarrow> (string, 'n) gomap \<Rightarrow> string \<Rightarrow> string list option" where
  "doc_namespace Y raw k =
     (case map_of raw ''namespace_permissions'' of
        None \<Rightarrow> None
      | Some n \<Rightarrow> map_of (snd (decode_table Y n [])) k)"

text \<open>Whether a section loads, from empty tables.\<close>

definition section_loads :: "'n yaml \<Rightarrow> string \<times> 'n \<Rightarrow> bool" where
  "section_loads Y kn =
     (case kn of (k, n) \<Rightarrow>
        fst (load_section Y k n \<lparr>permissions = [], admins = [], namespacePermissions = []\<rparr>) = None)"

section \<open>Correctness of the loops\<close>

lemma load_users_ok:
  "fst (load_users Y un perms) = None \<longleftrightarrow> (\<forall>(u, v) \<in> set un. fst (decode_strings Y v []) = None)"
  by (induction Y un perms rule: load_users.induct) (auto split: prod.splits option.splits)

text \<open>Every entry the loop leaves was there or comes from the document, on errors too.\<close>

lemma load_users_sound:
  "wf_map un \<Longrightarrow> map_of (snd (load_users Y un perms)) u = Some ps \<Longrightarrow>
     map_of perms u = Some ps \<or> (\<exists>v. map_of un u = Some v \<and> snd (decode_strings Y v []) = ps)"
proof (induction Y un perms rule: load_users.induct)
  case (2 Y k v rest perms)
  then have wf: "wf_map rest" and k: "map_of rest k = None"
    by (auto simp: wf_map_def map_of_eq_None_iff)
  show ?case
    using "2.IH" [OF _ _ wf] "2.prems"(2) k
    by (auto simp: map_of_update_iff split: prod.splits option.splits if_splits)
qed simp

lemma load_users_complete:
  "wf_map un \<Longrightarrow> load_users Y un perms = (None, perms') \<Longrightarrow>
     map_of perms' u = (case map_of un u of
        Some v \<Rightarrow> Some (snd (decode_strings Y v [])) | None \<Rightarrow> map_of perms u)"
proof (induction Y un perms rule: load_users.induct)
  case (2 Y k v rest perms)
  then have wf: "wf_map rest" and k: "map_of rest k = None"
    by (auto simp: wf_map_def map_of_eq_None_iff)
  show ?case
    using "2.IH" [OF _ _ wf] "2.prems"(2) k
    by (auto simp: map_of_update_iff split: prod.splits option.splits if_splits)
qed simp

text \<open>What one turn does to each table, whether or not it fails.\<close>

lemma section_fields:
  "admins (snd (load_section Y k n pm)) =
     (if k = ''admin_users'' then snd (decode_strings Y n (admins pm)) else admins pm)"
  "permissions (snd (load_section Y k n pm)) =
     (if k = ''user_permissions'' then
        (case decode_nodes Y n of
           Inl e \<Rightarrow> permissions pm
         | Inr un \<Rightarrow> snd (load_users Y un (permissions pm)))
      else permissions pm)"
  "namespacePermissions (snd (load_section Y k n pm)) =
     (if k = ''namespace_permissions'' then snd (decode_table Y n (namespacePermissions pm))
      else namespacePermissions pm)"
  by (auto simp: load_section_def split: sum.splits prod.splits)

text \<open>Loading touches the three tables only.\<close>

lemma load_section_more: "perm_tables.more (snd (load_section Y k n pm)) = perm_tables.more pm"
  by (auto simp: load_section_def split: sum.splits prod.splits)

lemma load_sections_more: "perm_tables.more (snd (load_sections Y raw pm)) = perm_tables.more pm"
proof (induction Y raw pm rule: load_sections.induct)
  case (2 Y k n rest pm)
  obtain e p where p: "load_section Y k n pm = (e, p)" by fastforce
  have "perm_tables.more p = perm_tables.more pm"
    using load_section_more [of Y k n pm] p by simp
  with 2 p show ?case by (cases e) auto
qed simp

lemma load_more: "perm_tables.more (snd (Load Y contents pm)) = perm_tables.more pm"
  by (simp add: Load_def load_sections_more split: sum.splits)

text \<open>
  The table of a key is the one before the loop if the key was not reached, else the
  effect of its only turn on that.
\<close>

lemma sections_field:
  assumes field: "\<And>k n p. g (snd (load_section Y k n p)) = (if k = K then h n (g p) else g p)"
  shows "wf_map raw \<Longrightarrow> load_sections Y raw pm = (err, pm') \<Longrightarrow>
    (g pm' = g pm \<and> (err = None \<longrightarrow> map_of raw K = None)) \<or>
    (\<exists>n. map_of raw K = Some n \<and> g pm' = h n (g pm))"
proof (induction raw arbitrary: pm)
  case (Cons kn rest)
  obtain k n where kn: "kn = (k, n)" by fastforce
  obtain e p where sec: "load_section Y k n pm = (e, p)" by fastforce
  have g: "g p = (if k = K then h n (g pm) else g pm)"
    using field [of k n pm] sec by simp
  have wf: "wf_map rest" and fresh: "map_of rest k = None"
    using Cons.prems(1) kn by (auto simp: wf_map_def map_of_eq_None_iff)
  show ?case
  proof (cases e)
    case None
    with Cons.IH [OF wf] Cons.prems(2) kn sec have "(g pm' = g p \<and> (err = None \<longrightarrow> map_of rest K = None)) \<or>
        (\<exists>n. map_of rest K = Some n \<and> g pm' = h n (g p))"
      by simp
    then show ?thesis using g kn fresh by (auto split: if_splits)
  next
    case (Some a)
    with Cons.prems(2) kn sec g show ?thesis by auto
  qed
qed simp

lemmas sections_fields =
  sections_field [where g = admins, OF section_fields(1)]
  sections_field [where g = permissions, OF section_fields(2)]
  sections_field [where g = namespacePermissions, OF section_fields(3)]

context yaml_decoder
begin

lemma strings_ok: "fst (decode_strings Y n old) = None \<Longrightarrow> fst (decode_strings Y n old') = None"
  by (cases "decode_strings Y n old") (auto dest: strings_replaced [where old' = old'])

lemma section_loads_iff:
  assumes "k = ''namespace_permissions'' \<Longrightarrow> namespacePermissions pm = []"
  shows "fst (load_section Y k n pm) = None \<longleftrightarrow> section_loads Y (k, n)"
proof (cases "k = ''user_permissions''")
  case True
  then show ?thesis
    by (simp add: section_loads_def load_section_def load_users_ok case_prod_beta split: sum.splits)
next
  case False
  moreover have "fst (decode_strings Y n (admins pm)) = None \<longleftrightarrow> fst (decode_strings Y n []) = None"
    by (blast intro: strings_ok)
  ultimately show ?thesis
    using assms by (simp add: section_loads_def load_section_def case_prod_beta)
qed

lemma sections_ok:
  "wf_map raw \<Longrightarrow> (map_of raw ''namespace_permissions'' \<noteq> None \<Longrightarrow> namespacePermissions pm = []) \<Longrightarrow>
     fst (load_sections Y raw pm) = None \<longleftrightarrow> (\<forall>kn \<in> set raw. section_loads Y kn)"
proof (induction raw arbitrary: pm)
  case (Cons kn rest)
  obtain k n where kn: "kn = (k, n)" by fastforce
  obtain e p where sec: "load_section Y k n pm = (e, p)" by fastforce
  have wf: "wf_map rest" and fresh: "map_of rest k = None"
    using Cons.prems(1) kn by (auto simp: wf_map_def map_of_eq_None_iff)
  have ns: "map_of rest ''namespace_permissions'' \<noteq> None \<Longrightarrow> namespacePermissions p = []"
    using Cons.prems(2) kn fresh section_fields(3) [of Y k n pm] sec by (auto split: if_splits)
  have "e = None \<longleftrightarrow> section_loads Y kn"
    using section_loads_iff [of k pm n] Cons.prems(2) kn sec by auto
  with Cons.IH [OF wf ns] kn sec show ?case by (auto split: option.splits)
qed simp

text \<open>A successful load installs what the document says.\<close>

lemma load_meaning:
  assumes "wf_map raw"
    and "load_sections Y raw (pm\<lparr>permissions := [], namespacePermissions := []\<rparr>) = (None, pm')"
  shows "admins pm' = doc_admins Y raw (admins pm)"
    and "map_of (permissions pm') u = doc_user Y raw u"
    and "map_of (namespacePermissions pm') k = doc_namespace Y raw k"
proof -
  note f = sections_fields [OF assms]
  show "admins pm' = doc_admins Y raw (admins pm)"
    using f(1) by (auto simp: doc_admins_def)
  show "map_of (namespacePermissions pm') k = doc_namespace Y raw k"
    using f(3) by (auto simp: doc_namespace_def)
  have "\<forall>kn \<in> set raw. section_loads Y kn"
    using sections_ok [OF assms(1)] assms(2) by (metis fst_conv perm_tables.select_convs(3)
        perm_tables.surjective perm_tables.update_convs(1,3))
  then have up: "section_loads Y (''user_permissions'', n)" if "map_of raw ''user_permissions'' = Some n" for n
    using that map_of_SomeD by fastforce
  show "map_of (permissions pm') u = doc_user Y raw u"
  proof (cases "map_of raw ''user_permissions''")
    case None
    with f(2) show ?thesis by (auto simp: doc_user_def)
  next
    case (Some n)
    then obtain un ps where un: "decode_nodes Y n = Inr un" "load_users Y un [] = (None, ps)"
      using up [OF Some] by (auto simp: section_loads_def load_section_def split: sum.splits prod.splits)
    with f(2) Some have "permissions pm' = ps" by auto
    with un Some load_users_complete [OF nodes_distinct [OF un(1)] un(2)] show ?thesis
      by (auto simp: doc_user_def split: option.splits)
  qed
qed

text \<open>On errors too, every grant in the tables is one of the document.\<close>

lemma load_sound:
  assumes "wf_map raw"
    and "load_sections Y raw (pm\<lparr>permissions := [], namespacePermissions := []\<rparr>) = (err, pm')"
  shows "map_of (permissions pm') u = Some ps \<Longrightarrow> doc_user Y raw u = Some ps"
    and "map_of (namespacePermissions pm') k = Some ps \<Longrightarrow> doc_namespace Y raw k = Some ps"
    and "admins pm' = admins pm \<or> admins pm' = doc_admins Y raw (admins pm)"
proof -
  note f = sections_fields [OF assms]
  show "map_of (permissions pm') u = Some ps \<Longrightarrow> doc_user Y raw u = Some ps"
    using f(2) load_users_sound [where perms = "[]" and u = u and ps = ps, OF nodes_distinct]
    by (fastforce simp: doc_user_def split: sum.splits)
  show "map_of (namespacePermissions pm') k = Some ps \<Longrightarrow> doc_namespace Y raw k = Some ps"
    using f(3) by (auto simp: doc_namespace_def)
  show "admins pm' = admins pm \<or> admins pm' = doc_admins Y raw (admins pm)"
    using f(1) by (auto simp: doc_admins_def)
qed

lemma load_namespaces:
  assumes "wf_map raw"
    and "load_sections Y raw (pm\<lparr>permissions := [], namespacePermissions := []\<rparr>) = (err, pm')"
  shows "(\<forall>k. map_of (namespacePermissions pm') k = doc_namespace Y raw k) \<or> namespacePermissions pm' = []"
  using sections_fields(3) [OF assms] by (auto simp: doc_namespace_def)

end

section \<open>A reference YAML library\<close>

text \<open>
  Nodes as trees and documents given by a table, for the witnesses; it meets the contract.
\<close>

datatype ref_node =
    Scalar string
  | Seq "string list"
  | Mapping "(string \<times> ref_node) list"

fun seq_or_fail :: "ref_node \<Rightarrow> string list \<Rightarrow> string option \<times> string list" where
  "seq_or_fail (Seq xs) old = (None, xs)"
| "seq_or_fail (Scalar s) old = (if s = [] then (None, []) else (Some ''cannot unmarshal !!str'', old))"
| "seq_or_fail (Mapping m) old = (Some ''cannot unmarshal !!map'', old)"

fun unique_keys :: "(string \<times> ref_node) list \<Rightarrow> string + (string, ref_node) gomap" where
  "unique_keys m = (if distinct (map fst m) then Inr m else Inl ''mapping key already defined'')"

fun table_entries ::
    "(string \<times> ref_node) list \<Rightarrow> (string, string list) gomap \<Rightarrow> string option \<times> (string, string list) gomap" where
  "table_entries [] t = (None, t)"
| "table_entries ((k, n) # rest) t =
     (case seq_or_fail n [] of
        (None, xs) \<Rightarrow> table_entries rest (AList.update k xs t)
      | (Some e, xs) \<Rightarrow> (Some e, snd (table_entries rest t)))"

definition ref_yaml :: "(bytes \<times> (string \<times> ref_node) list) list \<Rightarrow> ref_node yaml" where
  "ref_yaml docs =
     \<lparr>yaml_parse = (\<lambda>d. case map_of docs d of None \<Rightarrow> Inl ''did not find expected node'' | Some m \<Rightarrow> unique_keys m),
      decode_strings = seq_or_fail,
      decode_nodes = (\<lambda>n. case n of Mapping m \<Rightarrow> unique_keys m | _ \<Rightarrow> Inl ''cannot unmarshal''),
      decode_table = (\<lambda>n t. case n of Mapping m \<Rightarrow> table_entries m t | _ \<Rightarrow> (Some ''cannot unmarshal'', t))\<rparr>"

interpretation ref_yaml: yaml_decoder "ref_yaml docs" for docs
proof (unfold_locales, goal_cases)
  case (3 n old v old')
  then show ?case by (cases n) (auto simp: ref_yaml_def split: if_splits)
qed (auto simp: ref_yaml_def wf_map_def split: option.splits if_splits ref_node.splits)

section \<open>Properties\<close>

lemma Load_sections:
  assumes "yaml_decoder Y" "Load Y (Inr data) pm = (err, pm')" "yaml_parse Y data = Inr raw"
  shows "wf_map raw" "load_sections Y raw (pm\<lparr>permissions := [], namespacePermissions := []\<rparr>) = (err, pm')"
  using assms(2,3) yaml_decoder.parse_distinct [OF assms(1,3)] by (auto simp: Load_def)

lemma Load_document:
  assumes "yaml_decoder Y" and "Load Y (Inr data) pm = (None, pm')"
  shows "\<exists>raw. yaml_parse Y data = Inr raw \<and>
    (\<forall>u. map_of (permissions pm') u = doc_user Y raw u) \<and>
    (\<forall>k. map_of (namespacePermissions pm') k = doc_namespace Y raw k) \<and>
    admins pm' = doc_admins Y raw (admins pm)"
proof -
  from assms(2) obtain raw where raw: "yaml_parse Y data = Inr raw"
    by (auto simp: Load_def split: sum.splits)
  from yaml_decoder.load_meaning [OF assms(1) Load_sections [OF assms raw]] raw show ?thesis by auto
qed

text \<open>
  (C12) A successful load installs exactly the document: every user and every namespace key
  gets the patterns the document lists for it and no other entry survives. Only the list
  of admins may come from before, when the document has no such section.
\<close>

theorem Load_installs_document:
  assumes "yaml_decoder Y" and "Load Y (Inr data) pm = (None, pm')"
  shows "\<exists>raw. yaml_parse Y data = Inr raw \<and>
    (\<forall>u. map_of (permissions pm') u = doc_user Y raw u) \<and>
    (\<forall>k. map_of (namespacePermissions pm') k = doc_namespace Y raw k) \<and>
    admins pm' = doc_admins Y raw (admins pm)"
  by (rule Load_document [OF assms])

definition ops_doc :: "(string \<times> ref_node) list" where
  "ops_doc =
     [(''user_permissions'', Mapping [(''bob'', Seq [''/app/*''])]),
      (''namespace_permissions'', Mapping [(''prod'', Seq [''/db/*''])])]"

definition old_tables :: perm_tables where
  "old_tables = \<lparr>permissions = [(''eve'', [''/*''])], admins = [''alice''], namespacePermissions = []\<rparr>"

theorem Load_installs_document_witness:
  "\<exists>pm'. Load (ref_yaml [(''v2'', ops_doc)]) (Inr ''v2'') old_tables = (None, pm') \<and>
     map_of (permissions pm') ''eve'' = None \<and> map_of (permissions pm') ''bob'' = Some [''/app/*''] \<and>
     admins pm' = [''alice'']"
proof -
  let ?Y = "ref_yaml [(''v2'', ops_doc)]"
  have "fst (Load ?Y (Inr ''v2'') old_tables) = None"
    and raw: "yaml_parse ?Y ''v2'' = Inr ops_doc"
    and d: "doc_user ?Y ops_doc ''eve'' = None" "doc_user ?Y ops_doc ''bob'' = Some [''/app/*'']"
      "doc_admins ?Y ops_doc (admins old_tables) = [''alice'']"
    by code_simp+
  then obtain pm' where pm': "Load ?Y (Inr ''v2'') old_tables = (None, pm')"
    by (metis prod.collapse)
  from Load_installs_document [OF ref_yaml.yaml_decoder_axioms pm'] raw d pm' show ?thesis
    by (metis sum.inject(2))
qed


definition bad_doc :: "(string \<times> ref_node) list" where
  "bad_doc = (''user_permission'', Scalar ''typo'') # ops_doc"


text \<open>
  The random iteration order of the document's map does not matter to a load that
  succeeds in one order: it succeeds in every order, with the same tables.
\<close>

lemma Load_order_independent:
  assumes "yaml_decoder Y" and "wf_map raw" "wf_map raw'" "set raw = set raw'"
    and "load_sections Y raw (pm\<lparr>permissions := [], namespacePermissions := []\<rparr>) = (None, pm1)"
  shows "\<exists>pm2. load_sections Y raw' (pm\<lparr>permissions := [], namespacePermissions := []\<rparr>) = (None, pm2) \<and>
    map_of (permissions pm2) = map_of (permissions pm1) \<and> admins pm2 = admins pm1 \<and>
    map_of (namespacePermissions pm2) = map_of (namespacePermissions pm1)"
proof -
  let ?pm = "pm\<lparr>permissions := [], namespacePermissions := []\<rparr>"
  have same: "map_of raw = map_of raw'"
    using assms(2-4) by (rule map_of_order_irrelevant)
  have "fst (load_sections Y raw' ?pm) = None"
    using yaml_decoder.sections_ok [OF assms(1,2), of ?pm] yaml_decoder.sections_ok [OF assms(1,3), of ?pm]
      assms(4,5) by simp
  then obtain pm2 where pm2: "load_sections Y raw' ?pm = (None, pm2)"
    by (metis prod.collapse)
  note m1 = yaml_decoder.load_meaning [OF assms(1,2,5)] and m2 = yaml_decoder.load_meaning [OF assms(1,3) pm2]
  have "doc_user Y raw = doc_user Y raw'" "doc_namespace Y raw = doc_namespace Y raw'"
    "doc_admins Y raw = doc_admins Y raw'"
    using same by (simp_all add: doc_user_def [abs_def] doc_namespace_def [abs_def] doc_admins_def [abs_def])
  with pm2 m1 m2 show ?thesis by (auto simp: fun_eq_iff)
qed

text \<open>
  (C39) The admin list is not reset: after a successful reload of a document from which the
  section \<open>admin_users\<close> was removed, exactly the users who were admins before still are.
\<close>

theorem Load_keeps_removed_admins:
  assumes "yaml_decoder Y" and "Load Y (Inr data) pm = (None, pm')"
    and "yaml_parse Y data = Inr raw" "map_of raw ''admin_users'' = None"
  shows "CanExport (GetUserPermissions pm' u) = CanExport (GetUserPermissions pm u)"
proof -
  have "admins pm' = admins pm"
    using yaml_decoder.load_meaning(1) [OF assms(1) Load_sections [OF assms(1-3)]] assms(4)
    by (simp add: doc_admins_def)
  then show ?thesis by (simp add: CanExport_def GetUserPermissions_def)
qed

theorem Load_keeps_removed_admins_witness:
  "\<exists>pm'. Load (ref_yaml [(''v2'', ops_doc)]) (Inr ''v2'') old_tables = (None, pm') \<and>
     map_of ops_doc ''admin_users'' = None \<and> CanExport (GetUserPermissions pm' ''alice'')"
proof -
  let ?Y = "ref_yaml [(''v2'', ops_doc)]"
  have "fst (Load ?Y (Inr ''v2'') old_tables) = None"
    and raw: "yaml_parse ?Y ''v2'' = Inr ops_doc" and no: "map_of ops_doc ''admin_users'' = None"
    and a: "CanExport (GetUserPermissions old_tables ''alice'')"
    by code_simp+
  then obtain pm' where pm': "Load ?Y (Inr ''v2'') old_tables = (None, pm')"
    by (metis prod.collapse)
  from Load_keeps_removed_admins [OF ref_yaml.yaml_decoder_axioms pm' raw no, of "''alice''"] a pm' no
  show ?thesis by blast
qed

end
