(* ===== verification/Token_Auth.thy ===== *)
theory Token_Auth
  imports Jwks Perm_Load
begin

text \<open>
  The permission manager as a whole (permissions.go): its construction, the validation of
  JWTs, and the validation of opaque access tokens through UserInfo with its cache. The
  JWT library, the UserInfo endpoint and SHA-256 are parameters.
\<close>

section \<open>The cache of resolved identities\<close>

record userInfoCacheEntry =
  ui_username :: string
  ui_expires :: int

record userInfoCache =
  uc_ttl :: int
  uc_entries :: "(string, userInfoCacheEntry) gomap"

definition five_minutes :: int where
  "five_minutes = 5 * 60 * 1000000000"

definition newUserInfoCache :: "int \<Rightarrow> userInfoCache" where
  "newUserInfoCache ttl = \<lparr>uc_ttl = (if ttl \<le> 0 then five_minutes else ttl), uc_entries = []\<rparr>"

definition cache_get :: "userInfoCache \<Rightarrow> int \<Rightarrow> string \<Rightarrow> string option \<times> userInfoCache" where
  "cache_get c now key =
     (case map_of (uc_entries c) key of
        None \<Rightarrow> (None, c)
      | Some entry \<Rightarrow>
          if ui_expires entry < now
          then (None, c\<lparr>uc_entries := AList.delete key (uc_entries c)\<rparr>)
          else (Some (ui_username entry), c))"

definition cache_put :: "userInfoCache \<Rightarrow> int \<Rightarrow> string \<Rightarrow> string \<Rightarrow> userInfoCache" where
  "cache_put c now key u =
     c\<lparr>uc_entries := AList.update key \<lparr>ui_username = u, ui_expires = now + uc_ttl c\<rparr> (uc_entries c)\<rparr>"

section \<open>The manager\<close>

record PermissionManager = perm_tables +
  pm_configPath :: string
  pm_keyfunc :: "keyfunc option"
  pm_policy :: claim_policy
  pm_oidcProvider :: "string option"
  pm_userInfoCache :: userInfoCache

record jwt_token =
  jt_header :: token_header
  jt_valid :: bool
  jt_claims :: "claims option"

text \<open>
  \<open>al_parse\<close> is \<^verbatim>\<open>jwt.Parse\<close> with \<^verbatim>\<open>WithExpirationRequired\<close> and the given
  \<^verbatim>\<open>WithValidMethods\<close>; it calls the key function, whose state it threads.
\<close>

type_synonym 's key_lookup =
  "token_header \<Rightarrow> keyfunc \<times> 's \<Rightarrow> (jwks_error + rsa_key) \<times> keyfunc \<times> 's"

record 's auth_lib =
  al_net :: "'s jwks_net"
  al_parse :: "'s key_lookup \<Rightarrow> string list \<Rightarrow> string \<Rightarrow> keyfunc \<times> 's \<Rightarrow>
    (string + jwt_token) \<times> keyfunc \<times> 's"
  al_userinfo :: "string \<Rightarrow> string \<Rightarrow> 's \<Rightarrow> (string + (string + claims)) \<times> 's"
  al_sha256 :: "string \<Rightarrow> bytes"

definition hex_digit :: "nat \<Rightarrow> char" where
  "hex_digit n = (if n < 10 then char_of (48 + n) else char_of (87 + n))"

definition hex_encode :: "bytes \<Rightarrow> string" where
  "hex_encode bs =
     concat (map (\<lambda>b. [hex_digit (of_char b div 16), hex_digit (of_char b mod 16)]) bs)"

definition tokenCacheKey :: "'s auth_lib \<Rightarrow> string \<Rightarrow> string" where
  "tokenCacheKey L token = hex_encode (al_sha256 L token)"

definition jwtConfigured :: "PermissionManager \<Rightarrow> bool" where
  "jwtConfigured pm \<longleftrightarrow> pm_keyfunc pm \<noteq> None"

definition valid_methods :: "string list" where
  "valid_methods = [''RS256'', ''RS384'', ''RS512'']"

definition ValidateJWT ::
    "'s auth_lib \<Rightarrow> PermissionManager \<Rightarrow> string \<Rightarrow> 's \<Rightarrow> (token_error + string) \<times> PermissionManager \<times> 's" where
  "ValidateJWT L pm tokenString s =
     (case pm_keyfunc pm of
        None \<Rightarrow> (Inl NotConfigured, pm, s)
      | Some f \<Rightarrow>
          (case al_parse L (run_keyfunc (al_net L)) valid_methods tokenString (f, s) of
             (r, f1, s1) \<Rightarrow>
               (let pm1 = pm\<lparr>pm_keyfunc := Some f1\<rparr>
                in case r of
                     Inl e \<Rightarrow> (Inl (BadToken e), pm1, s1)
                   | Inr t \<Rightarrow>
                       if \<not> jt_valid t then (Inl InvalidToken, pm1, s1)
                       else (case jt_claims t of
                               None \<Rightarrow> (Inl InvalidClaims, pm1, s1)
                             | Some cs \<Rightarrow> (jwt_username (pm_policy pm) cs, pm1, s1)))))"

definition EnableUserInfoAuth :: "PermissionManager \<Rightarrow> string \<Rightarrow> int \<Rightarrow> PermissionManager" where
  "EnableUserInfoAuth pm provider ttl =
     pm\<lparr>pm_oidcProvider := Some provider, pm_userInfoCache := newUserInfoCache ttl\<rparr>"

definition ValidateAccessToken ::
    "'s auth_lib \<Rightarrow> PermissionManager \<Rightarrow> string \<Rightarrow> 's \<Rightarrow> (token_error + string) \<times> PermissionManager \<times> 's" where
  "ValidateAccessToken L pm token s =
     (case pm_oidcProvider pm of
        None \<Rightarrow> (Inl NotConfigured, pm, s)
      | Some provider \<Rightarrow>
          (let cacheKey = tokenCacheKey L token
           in case cache_get (pm_userInfoCache pm) (jn_clock (al_net L) s) cacheKey of
                (Some u, c1) \<Rightarrow> (Inr u, pm\<lparr>pm_userInfoCache := c1\<rparr>, s)
              | (None, c1) \<Rightarrow>
                  (let pm1 = pm\<lparr>pm_userInfoCache := c1\<rparr>
                   in case al_userinfo L provider token s of
                        (Inl e, s1) \<Rightarrow> (Inl (UserInfoFailed e), pm1, s1)
                      | (Inr (Inl e), s1) \<Rightarrow> (Inl (UserInfoFailed e), pm1, s1)
                      | (Inr (Inr cs), s1) \<Rightarrow>
                          (case userinfo_username (pm_policy pm) cs of
                             Inl e \<Rightarrow> (Inl e, pm1, s1)
                           | Inr u \<Rightarrow>
                               (Inr u, pm1\<lparr>pm_userInfoCache :=
                                  cache_put c1 (jn_clock (al_net L) s1) cacheKey u\<rparr>, s1)))))"

section \<open>Construction\<close>

datatype new_error =
    NoConfigPath
  | KeySource jwks_error
  | AudienceRequired
  | LoadError load_error

definition NewPermissionManagerWithJWTConfig ::
    "pem_lib \<Rightarrow> 'n yaml \<Rightarrow> (string \<Rightarrow> string + bytes) \<Rightarrow>
     string \<Rightarrow> JWTKeyConfig \<Rightarrow> string \<Rightarrow> new_error + PermissionManager" where
  "NewPermissionManagerWithJWTConfig P Y readFile configPath cfg userClaim0 =
     (if configPath = [] then Inl NoConfigPath
      else (let uclaim = (if userClaim0 = [] then ''sub'' else userClaim0)
            in case buildJWTKeyfunc P cfg of
                 Inl e \<Rightarrow> Inl (KeySource e)
               | Inr kf \<Rightarrow>
                   if JWKSURL cfg \<noteq> [] \<and> cfg_Audience cfg = [] then Inl AudienceRequired
                   else (case Load Y (readFile configPath)
                            \<lparr>permissions = [], admins = [], namespacePermissions = [],
                             pm_configPath = configPath, pm_keyfunc = kf,
                             pm_policy = \<lparr>userClaim = uclaim, audience = cfg_Audience cfg,
                                          issuer = cfg_Issuer cfg\<rparr>,
                             pm_oidcProvider = None, pm_userInfoCache = \<lparr>uc_ttl = 0, uc_entries = []\<rparr>\<rparr> of
                           (Some e, pm) \<Rightarrow> Inl (LoadError e)
                         | (None, pm) \<Rightarrow> Inr pm)))"

definition NewPermissionManager ::
    "pem_lib \<Rightarrow> 'n yaml \<Rightarrow> (string \<Rightarrow> string + bytes) \<Rightarrow>
     string \<Rightarrow> string \<Rightarrow> string \<Rightarrow> new_error + PermissionManager" where
  "NewPermissionManager P Y readFile configPath publicKeyPEM userClaim0 =
     NewPermissionManagerWithJWTConfig P Y readFile configPath
       \<lparr>PublicKeyPEM = publicKeyPEM, JWKSURL = [], JWKSJSON = [], RefreshInterval = 0,
        cfg_Audience = [], cfg_Issuer = []\<rparr> userClaim0"

section \<open>The invariant of a manager\<close>

text \<open>
  \<open>identified tok cs t\<close> says that at time \<open>t\<close> the provider answered \<open>cs\<close> for the access
  token \<open>tok\<close>. A manager is sound if its cached keys are genuine and each cached identity
  is one that was accepted from such an answer, with an expiry one TTL after it.
\<close>

definition entry_ok ::
    "'s auth_lib \<Rightarrow> (string \<Rightarrow> claims \<Rightarrow> int \<Rightarrow> bool) \<Rightarrow> claim_policy \<Rightarrow> int \<Rightarrow> string \<Rightarrow>
     userInfoCacheEntry \<Rightarrow> bool" where
  "entry_ok L identified cp ttl key e \<longleftrightarrow>
     (\<exists>tok cs t. tokenCacheKey L tok = key \<and> identified tok cs t \<and>
        userinfo_username cp cs = Inr (ui_username e) \<and> ui_expires e = t + ttl)"

definition pm_ok ::
    "'s auth_lib \<Rightarrow> (string \<Rightarrow> rsa_key \<Rightarrow> bool) \<Rightarrow> (string \<Rightarrow> claims \<Rightarrow> int \<Rightarrow> bool) \<Rightarrow>
     PermissionManager \<Rightarrow> bool" where
  "pm_ok L genuine identified pm \<longleftrightarrow>
     (\<forall>f. pm_keyfunc pm = Some f \<longrightarrow> keyfunc_genuine genuine f) \<and>
     (pm_oidcProvider pm \<noteq> None \<longrightarrow> 0 < uc_ttl (pm_userInfoCache pm)) \<and>
     (\<forall>key e. map_of (uc_entries (pm_userInfoCache pm)) key = Some e \<longrightarrow>
        entry_ok L identified (pm_policy pm) (uc_ttl (pm_userInfoCache pm)) key e)"

section \<open>The contract of the token libraries\<close>

text \<open>
  \<open>verifies k alg tok cs\<close>: \<open>tok\<close> is a token with payload \<open>cs\<close> whose signature verifies
  under \<open>k\<close> with the method \<open>alg\<close>. \<open>unexpired cs t\<close>: \<open>cs\<close> has an expiration, later than
  \<open>t\<close>. A parse that succeeds has used the key function and one of the allowed methods.
\<close>

locale token_library = jwks_provider "al_net L" genuine
  for L :: "'s auth_lib" and genuine :: "string \<Rightarrow> rsa_key \<Rightarrow> bool" +
  fixes verifies :: "rsa_key \<Rightarrow> string \<Rightarrow> string \<Rightarrow> claims \<Rightarrow> bool"
    and unexpired :: "claims \<Rightarrow> int \<Rightarrow> bool"
    and identified :: "string \<Rightarrow> claims \<Rightarrow> int \<Rightarrow> bool"
  assumes parse_verified: "al_parse L kf methods tok fs = (Inr t, fs') \<Longrightarrow> jt_valid t \<Longrightarrow>
      jt_claims t = Some cs \<Longrightarrow>
      \<exists>k. kf (jt_header t) fs = (Inr k, fs') \<and> th_alg (jt_header t) \<in> set methods \<and>
        verifies k (th_alg (jt_header t)) tok cs \<and> unexpired cs (jn_clock (al_net L) (snd fs'))"
    and parse_state: "al_parse L kf methods tok fs = (r, fs') \<Longrightarrow>
      fst fs' = fst fs \<or> (\<exists>h. fst fs' = fst (snd (kf h fs)))"
    and userinfo_identifies: "al_userinfo L p tok s = (Inr (Inr cs), s') \<Longrightarrow>
      identified tok cs (jn_clock (al_net L) s')"
begin

lemma jwt_keeps:
  assumes "pm_ok L genuine identified pm" "ValidateJWT L pm tok s = (r, pm', s')"
  shows "pm_ok L genuine identified pm'"
proof (cases "pm_keyfunc pm")
  case (Some f)
  obtain p f1 s1 where p: "al_parse L (run_keyfunc (al_net L)) valid_methods tok (f, s) = (p, f1, s1)"
    by (metis prod.exhaust)
  have gf: "keyfunc_genuine genuine f"
    using assms(1) Some by (simp add: pm_ok_def)
  have "keyfunc_genuine genuine f1"
    using parse_state [OF p]
  proof
    assume "\<exists>h. fst (f1, s1) = fst (snd (run_keyfunc (al_net L) h (f, s)))"
    then obtain h where "fst (snd (run_keyfunc (al_net L) h (f, s))) = f1" by auto
    then show ?thesis
      using run_keyfunc_trusts(1) [OF gf, of h s] by (metis prod.collapse)
  qed (use gf in simp)
  moreover have "pm' = pm\<lparr>pm_keyfunc := Some f1\<rparr>"
    using assms(2) Some p
    by (auto simp: ValidateJWT_def Let_def split: sum.splits if_splits option.splits)
  ultimately show ?thesis
    using assms(1) by (simp add: pm_ok_def)
qed (use assms in \<open>simp add: ValidateJWT_def\<close>)

lemma jwt_sound:
  assumes "pm_ok L genuine identified pm" "ValidateJWT L pm tok s = (Inr u, pm', s')"
  shows "\<exists>f k cs alg. pm_keyfunc pm = Some f \<and> trusts genuine f k \<and> verifies k alg tok cs \<and>
    alg \<in> set valid_methods \<and> unexpired cs (jn_clock (al_net L) s') \<and>
    jwt_username (pm_policy pm) cs = Inr u"
proof -
  from assms(2) obtain f t f1 cs where f: "pm_keyfunc pm = Some f"
    and p: "al_parse L (run_keyfunc (al_net L)) valid_methods tok (f, s) = (Inr t, f1, s')"
    and t: "jt_valid t" "jt_claims t = Some cs" "jwt_username (pm_policy pm) cs = Inr u"
    by (auto simp: ValidateJWT_def Let_def split: option.splits prod.splits sum.splits if_splits)
  from parse_verified [OF p t(1,2)] obtain k where
    k: "run_keyfunc (al_net L) (jt_header t) (f, s) = (Inr k, f1, s')"
    and *: "th_alg (jt_header t) \<in> set valid_methods" "verifies k (th_alg (jt_header t)) tok cs"
      "unexpired cs (jn_clock (al_net L) s')"
    by auto
  have "keyfunc_genuine genuine f"
    using assms(1) f by (simp add: pm_ok_def)
  with run_keyfunc_trusts(3) [OF _ k] f t * show ?thesis by blast
qed

text \<open>The cache keeps its invariant; what it returns is justified and not older than the TTL.\<close>

lemma cache_get_cases:
  assumes "cache_get c now key = (r, c')"
  shows "uc_ttl c' = uc_ttl c" and "map_of (uc_entries c') k = Some e \<Longrightarrow> map_of (uc_entries c) k = Some e"
    and "r = Some u \<Longrightarrow> c' = c \<and> (\<exists>e. map_of (uc_entries c) key = Some e \<and> ui_username e = u \<and> now \<le> ui_expires e)"
  using assms by (auto simp: cache_get_def map_of_delete_iff split: option.splits if_splits)

lemma access_token:
  assumes "pm_ok L genuine identified pm" "ValidateAccessToken L pm tok s = (r, pm', s')"
  shows "pm_ok L genuine identified pm'" and "r = Inr u \<Longrightarrow>
    \<exists>tok0 cs t. tokenCacheKey L tok0 = tokenCacheKey L tok \<and> identified tok0 cs t \<and>
      userinfo_username (pm_policy pm) cs = Inr u \<and>
      jn_clock (al_net L) s' \<le> t + uc_ttl (pm_userInfoCache pm)"
proof -
  let ?c = "pm_userInfoCache pm" and ?key = "tokenCacheKey L tok"
  have inv: "entry_ok L identified (pm_policy pm) (uc_ttl ?c) k e" if "map_of (uc_entries ?c) k = Some e" for k e
    using assms(1) that by (simp add: pm_ok_def)
  obtain v c1 where get: "cache_get ?c (jn_clock (al_net L) s) ?key = (v, c1)" by fastforce
  note g = cache_get_cases [OF get]
  have ok1: "pm_ok L genuine identified (pm\<lparr>pm_userInfoCache := c1\<rparr>)"
    using assms(1) g(1,2) by (simp add: pm_ok_def)
  have put: "pm_ok L genuine identified (pm\<lparr>pm_userInfoCache := cache_put c1 (jn_clock (al_net L) s1) ?key x\<rparr>)"
    if "al_userinfo L p tok s = (Inr (Inr cs), s1)" "userinfo_username (pm_policy pm) cs = Inr x" for p cs s1 x
  proof -
    have "entry_ok L identified (pm_policy pm) (uc_ttl c1) ?key
        \<lparr>ui_username = x, ui_expires = jn_clock (al_net L) s1 + uc_ttl c1\<rparr>"
      using that userinfo_identifies unfolding entry_ok_def by fastforce
    with ok1 show ?thesis by (auto simp: pm_ok_def cache_put_def map_of_update_iff)
  qed
  show "pm_ok L genuine identified pm'"
    using assms ok1 put get
    by (auto simp: ValidateAccessToken_def Let_def split: option.splits sum.splits prod.splits)
  assume r: "r = Inr u"
  show "\<exists>tok0 cs t. tokenCacheKey L tok0 = ?key \<and> identified tok0 cs t \<and>
      userinfo_username (pm_policy pm) cs = Inr u \<and> jn_clock (al_net L) s' \<le> t + uc_ttl ?c"
  proof (cases v)
    case (Some x)
    with assms(2) r get have "x = u" "s' = s"
      by (auto simp: ValidateAccessToken_def Let_def split: option.splits)
    with g(3) Some obtain e where e: "map_of (uc_entries ?c) ?key = Some e" "ui_username e = u"
      "jn_clock (al_net L) s' \<le> ui_expires e" by auto
    with inv [OF e(1)] show ?thesis unfolding entry_ok_def by (metis tokenCacheKey_def)
  next
    case None
    with assms(2) r get obtain p cs where ui: "al_userinfo L p tok s = (Inr (Inr cs), s')"
      and "userinfo_username (pm_policy pm) cs = Inr u" and "pm_oidcProvider pm \<noteq> None"
      by (auto simp: ValidateAccessToken_def Let_def split: option.splits sum.splits prod.splits)
    moreover from this(3) assms(1) have "0 < uc_ttl ?c" by (simp add: pm_ok_def)
    ultimately show ?thesis
      using userinfo_identifies [OF ui] by (metis less_add_same_cancel1 less_imp_le)
  qed
qed

end

section \<open>Reference libraries\<close>

text \<open>
  Tokens and UserInfo answers by name: a token of the table carries its signer and its
  expiry. The libraries meet the contract.
\<close>

record ref_token =
  rt_header :: token_header
  rt_signer :: rsa_key
  rt_expires :: int
  rt_claims :: claims

definition ref_parse_jwt ::
    "(string \<times> ref_token) list \<Rightarrow> ref_net key_lookup \<Rightarrow> string list \<Rightarrow> string \<Rightarrow> keyfunc \<times> ref_net \<Rightarrow>
     (string + jwt_token) \<times> keyfunc \<times> ref_net" where
  "ref_parse_jwt toks kf methods tok fs =
     (case map_of toks tok of
        None \<Rightarrow> (Inl ''token is malformed'', fs)
      | Some rt \<Rightarrow>
          if th_alg (rt_header rt) \<notin> set methods then (Inl ''signing method is invalid'', fs)
          else (case kf (rt_header rt) fs of
                  (Inl e, fs') \<Rightarrow> (Inl ''error while executing keyfunc'', fs')
                | (Inr k, fs') \<Rightarrow>
                    if k \<noteq> rt_signer rt then (Inl ''signature is invalid'', fs')
                    else if rt_expires rt \<le> rn_clock (snd fs') then (Inl ''token is expired'', fs')
                    else (Inr \<lparr>jt_header = rt_header rt, jt_valid = True, jt_claims = Some (rt_claims rt)\<rparr>, fs')))"

definition ref_lib ::
    "bytes list \<Rightarrow> (string \<times> ref_token) list \<Rightarrow> (string \<times> claims) list \<Rightarrow> ref_net auth_lib" where
  "ref_lib docs toks infos =
     \<lparr>al_net = ref_jwks docs, al_parse = ref_parse_jwt toks,
      al_userinfo = (\<lambda>p tok s. (case map_of infos tok of
        None \<Rightarrow> Inl ''401 Unauthorized'' | Some cs \<Rightarrow> Inr (Inr cs), s)),
      al_sha256 = (\<lambda>s. s)\<rparr>"

definition ref_signed :: "(string \<times> ref_token) list \<Rightarrow> rsa_key \<Rightarrow> string \<Rightarrow> string \<Rightarrow> claims \<Rightarrow> bool" where
  "ref_signed toks k alg tok cs \<longleftrightarrow>
     (\<exists>rt. map_of toks tok = Some rt \<and> rt_signer rt = k \<and> th_alg (rt_header rt) = alg \<and> rt_claims rt = cs)"

definition ref_unexpired :: "(string \<times> ref_token) list \<Rightarrow> claims \<Rightarrow> int \<Rightarrow> bool" where
  "ref_unexpired toks cs t \<longleftrightarrow> (\<exists>tok rt. map_of toks tok = Some rt \<and> rt_claims rt = cs \<and> t < rt_expires rt)"

definition ref_identified :: "(string \<times> claims) list \<Rightarrow> string \<Rightarrow> claims \<Rightarrow> int \<Rightarrow> bool" where
  "ref_identified infos tok cs t \<longleftrightarrow> map_of infos tok = Some cs"

lemma ref_lib_net [simp]: "al_net (ref_lib docs toks infos) = ref_jwks docs"
  by (simp add: ref_lib_def)

interpretation ref_tokens: token_library "ref_lib docs toks infos" "ref_genuine docs"
    "ref_signed toks" "ref_unexpired toks" "ref_identified infos" for docs toks infos
proof (unfold_locales, goal_cases)
  case (1 url s data s' ks kid k)
  then show ?case using ref_jwks.served [of docs] by simp
next
  case (2 kf methods tok fs t fs' cs)
  then show ?case
    by (auto simp: ref_lib_def ref_parse_jwt_def ref_signed_def ref_unexpired_def ref_jwks_def not_le
        split: option.splits prod.splits sum.splits if_splits)
      (metis)
next
  case (3 kf methods tok fs r fs')
  then show ?case
    by (auto simp: ref_lib_def ref_parse_jwt_def split: option.splits prod.splits sum.splits if_splits)
      (metis fst_conv snd_conv)+
next
  case (4 p tok s cs s')
  then show ?case by (auto simp: ref_lib_def ref_identified_def split: option.splits)
qed

end
