(* ===== verification/Token_Properties.thy ===== *)
theory Token_Properties
  imports Token_Auth
begin

text \<open>
  The properties of token validation and of the construction of the permission manager,
  over the contract of the token libraries; the witnesses run on the reference libraries.
\<close>

section \<open>Cases of the reference libraries\<close>

definition ann_claims :: claims where
  "ann_claims = [(''sub'', JString ''ann''), (''aud'', JArray [JString ''vault'', JString ''x''])]"

definition ann_token :: ref_token where
  "ann_token = \<lparr>rt_header = \<lparr>th_rsa_method = True, th_alg = ''RS256'', th_kid = JString ''k1''\<rparr>,
     rt_signer = \<lparr>rsa_N = 199, rsa_E = 65537\<rparr>, rt_expires = 5000, rt_claims = ann_claims\<rparr>"

definition lib :: "ref_net auth_lib" where
  "lib = ref_lib [key_set] [(''t'', ann_token)] [(''opaque'', [(''sub'', JString ''bob'')])]"

lemmas lib_library = ref_tokens.token_library_axioms
  [of "[key_set]" "[(''t'', ann_token)]" "[(''opaque'', [(''sub'', JString ''bob'')])]", folded lib_def]

definition idp_manager :: PermissionManager where
  "idp_manager =
     \<lparr>permissions = [], admins = [], namespacePermissions = [], pm_configPath = ''perms.yaml'',
      pm_keyfunc = Some (JwksRemote \<lparr>jc_url = ''https://idp/keys'', jc_refresh = 300, jc_keys = None, jc_lastFetch = 0\<rparr>),
      pm_policy = \<lparr>userClaim = ''sub'', audience = ''vault'', issuer = []\<rparr>,
      pm_oidcProvider = Some ''https://idp'', pm_userInfoCache = newUserInfoCache 60\<rparr>"

definition up_net :: ref_net where
  "up_net = \<lparr>rn_clock = 1000, rn_serves = Some key_set\<rparr>"

lemma idp_manager_ok: "pm_ok L g ident idp_manager"
  by (simp add: pm_ok_def idp_manager_def cache_genuine_def newUserInfoCache_def)

section \<open>Properties\<close>

text \<open>
  (C8) A JWT is accepted only for a reason: the manager has a key source, the token's
  signature verifies under a key that source may hand out (the configured key, one of the
  configured set, or a genuine key of the remote endpoint), with an RSA method of the
  allowed list, the token has not expired, a configured audience is among the token's
  audiences in any of their encodings, a configured issuer is its issuer, the user is the
  non-empty string in the configured claim, and a user named by email is explicitly
  verified. Validation keeps the manager sound.
\<close>

theorem ValidateJWT_sound:
  assumes "token_library L genuine verifies unexpired identified"
    and "pm_ok L genuine identified pm" and "ValidateJWT L pm tok s = (r, pm', s')"
  shows "pm_ok L genuine identified pm' \<and>
    (\<forall>u. r = Inr u \<longrightarrow>
       (\<exists>f k cs alg. pm_keyfunc pm = Some f \<and> trusts genuine f k \<and> verifies k alg tok cs \<and>
          alg \<in> {''RS256'', ''RS384'', ''RS512''} \<and> unexpired cs (jn_clock (al_net L) s') \<and>
          (audience (pm_policy pm) = [] \<or>
             (\<exists>raw. map_of cs ''aud'' = Some raw \<and> audience (pm_policy pm) \<in> audiences raw)) \<and>
          (issuer (pm_policy pm) = [] \<or> map_of cs ''iss'' = Some (JString (issuer (pm_policy pm)))) \<and>
          map_of cs (userClaim (pm_policy pm)) = Some (JString u) \<and> u \<noteq> [] \<and>
          (userClaim (pm_policy pm) \<noteq> ''email'' \<or>
             (\<exists>v. map_of cs ''email_verified'' = Some v \<and> (v = JBool True \<or> v = JString ''true'')))))"
proof (intro conjI allI impI)
  show "pm_ok L genuine identified pm'"
    by (rule token_library.jwt_keeps [OF assms])
next
  fix u
  assume "r = Inr u"
  with assms(3) have v: "ValidateJWT L pm tok s = (Inr u, pm', s')" by simp
  note sound = token_library.jwt_sound [OF assms(1,2) v]
  show "\<exists>f k cs alg. pm_keyfunc pm = Some f \<and> trusts genuine f k \<and> verifies k alg tok cs \<and>
          alg \<in> {''RS256'', ''RS384'', ''RS512''} \<and> unexpired cs (jn_clock (al_net L) s') \<and>
          (audience (pm_policy pm) = [] \<or>
             (\<exists>raw. map_of cs ''aud'' = Some raw \<and> audience (pm_policy pm) \<in> audiences raw)) \<and>
          (issuer (pm_policy pm) = [] \<or> map_of cs ''iss'' = Some (JString (issuer (pm_policy pm)))) \<and>
          map_of cs (userClaim (pm_policy pm)) = Some (JString u) \<and> u \<noteq> [] \<and>
          (userClaim (pm_policy pm) \<noteq> ''email'' \<or>
             (\<exists>v. map_of cs ''email_verified'' = Some v \<and> (v = JBool True \<or> v = JString ''true'')))"
    by (rule sound [unfolded jwt_claims_required valid_methods_def list.set])
qed

lemma ann_accepted: "fst (ValidateJWT lib idp_manager ''t'' up_net) = Inr ''ann''"
  using key_set_parsed
  by (simp add: ValidateJWT_def lib_def ref_lib_def idp_manager_def ref_parse_jwt_def ann_token_def
      run_keyfunc_def header_kid_def getKey_def getKey_locked_def cached_def fetch_def up_net_def ref_jwks_def Let_def
      valid_methods_def jwt_username_def ann_claims_def audienceMatches_def claim_def)

theorem ValidateJWT_sound_witness:
  "\<exists>pm' s' k. ValidateJWT lib idp_manager ''t'' up_net = (Inr ''ann'', pm', s') \<and>
     ref_genuine [key_set] ''https://idp/keys'' k \<and> (\<exists>alg cs. ref_signed [(''t'', ann_token)] k alg ''t'' cs)"
proof -
  from ann_accepted obtain pm' s' where v: "ValidateJWT lib idp_manager ''t'' up_net = (Inr ''ann'', pm', s')"
    by (metis prod.collapse)
  have f: "pm_keyfunc idp_manager = Some (JwksRemote \<lparr>jc_url = ''https://idp/keys'', jc_refresh = 300, jc_keys = None, jc_lastFetch = 0\<rparr>)"
    by (simp add: idp_manager_def)
  from ValidateJWT_sound [OF lib_library idp_manager_ok v] obtain f' k cs alg where
    "pm_keyfunc idp_manager = Some f'" and t: "trusts (ref_genuine [key_set]) f' k"
    and sg: "ref_signed [(''t'', ann_token)] k alg ''t'' cs"
    by blast
  with f have "f' = JwksRemote \<lparr>jc_url = ''https://idp/keys'', jc_refresh = 300, jc_keys = None, jc_lastFetch = 0\<rparr>"
    by simp
  with t have "ref_genuine [key_set] ''https://idp/keys'' k"
    by (simp only: trusts.simps jwksCache.select_convs)
  with v sg show ?thesis by blast
qed

text \<open>
  (C27) An access token is accepted only for a reason: at a time at most one TTL ago the
  provider's UserInfo endpoint answered, for a token with the same hash, claims that pass
  the user and email checks. Cached identities are never served beyond the TTL, which is
  positive, and validation keeps the manager sound.
\<close>

theorem ValidateAccessToken_sound:
  assumes "token_library L genuine verifies unexpired identified"
    and "pm_ok L genuine identified pm" and "ValidateAccessToken L pm tok s = (r, pm', s')"
  shows "pm_ok L genuine identified pm' \<and>
    (\<forall>u. r = Inr u \<longrightarrow>
       (\<exists>tok0 cs t. tokenCacheKey L tok0 = tokenCacheKey L tok \<and> identified tok0 cs t \<and>
          userinfo_username (pm_policy pm) cs = Inr u \<and>
          jn_clock (al_net L) s' \<le> t + uc_ttl (pm_userInfoCache pm)))"
  using token_library.access_token [OF assms] by blast

theorem ValidateAccessToken_sound_witness:
  "\<exists>pm' s'. ValidateAccessToken lib idp_manager ''opaque'' up_net = (Inr ''bob'', pm', s') \<and>
     pm_ok lib (ref_genuine [key_set]) (ref_identified [(''opaque'', [(''sub'', JString ''bob'')])]) pm'"
proof -
  have "fst (ValidateAccessToken lib idp_manager ''opaque'' up_net) = Inr ''bob''"
    by code_simp
  then obtain pm' s' where v: "ValidateAccessToken lib idp_manager ''opaque'' up_net = (Inr ''bob'', pm', s')"
    by (metis prod.collapse)
  from ValidateAccessToken_sound [OF lib_library idp_manager_ok v] v show ?thesis by blast
qed

text \<open>
  What the constructor did when it returns a manager: the key source is the one of the
  configuration, and the tables are those of a first load, which started from none.
\<close>

lemma new_managerE:
  assumes "NewPermissionManagerWithJWTConfig P Y readFile path cfg uc = Inr pm"
  obtains kf pm0 where "path \<noteq> []" "buildJWTKeyfunc P cfg = Inr kf"
    "JWKSURL cfg = [] \<or> cfg_Audience cfg \<noteq> []"
    "Load Y (readFile path) pm0 = (None, pm)" "admins pm0 = []"
    "pm_keyfunc pm = kf" "pm_oidcProvider pm = None" "uc_entries (pm_userInfoCache pm) = []"
    "pm_policy pm = \<lparr>userClaim = (if uc = [] then ''sub'' else uc), audience = cfg_Audience cfg, issuer = cfg_Issuer cfg\<rparr>"
proof -
  define uclaim where "uclaim = (if uc = [] then ''sub'' else uc)"
  from assms obtain kf pm0 where 1: "path \<noteq> []" "buildJWTKeyfunc P cfg = Inr kf"
    and 2: "\<not> (JWKSURL cfg \<noteq> [] \<and> cfg_Audience cfg = [])"
    and pm0: "pm0 = \<lparr>permissions = [], admins = [], namespacePermissions = [],
       pm_configPath = path, pm_keyfunc = kf,
       pm_policy = \<lparr>userClaim = uclaim, audience = cfg_Audience cfg, issuer = cfg_Issuer cfg\<rparr>,
       pm_oidcProvider = None, pm_userInfoCache = \<lparr>uc_ttl = 0, uc_entries = []\<rparr>\<rparr>"
    and load: "Load Y (readFile path) pm0 = (None, pm)"
    by (auto simp: NewPermissionManagerWithJWTConfig_def Let_def uclaim_def
        split: if_splits sum.splits prod.splits option.splits)
  have "perm_tables.more pm = perm_tables.more pm0"
    using load_more [of Y "readFile path" pm0] load by simp
  then have f: "pm_keyfunc pm = kf" "pm_oidcProvider pm = None" "uc_entries (pm_userInfoCache pm) = []"
    "pm_policy pm = \<lparr>userClaim = uclaim, audience = cfg_Audience cfg, issuer = cfg_Issuer cfg\<rparr>"
    unfolding pm0 by (cases pm; simp)+
  have "admins pm0 = []" by (simp add: pm0)
  with 1 2 load f that show thesis unfolding uclaim_def by blast
qed

lemma buildJWTKeyfunc_source:
  assumes "buildJWTKeyfunc P cfg = Inr kf"
  shows "kf = Some x \<Longrightarrow> keyfunc_genuine genuine x"
    and "kf = Some (JwksRemote c) \<Longrightarrow> jc_url c = JWKSURL cfg \<and> JWKSURL cfg \<noteq> []"
    and "kf \<noteq> None \<longleftrightarrow> PublicKeyPEM cfg \<noteq> [] \<or> JWKSURL cfg \<noteq> [] \<or> JWKSJSON cfg \<noteq> []"
  using assms
  by (auto simp: buildJWTKeyfunc_def Let_def cache_genuine_def split: if_splits sum.splits)

lemma new_manager_ok:
  assumes "NewPermissionManagerWithJWTConfig P Y readFile path cfg uc = Inr pm"
  shows "pm_ok L genuine identified pm"
proof -
  from assms obtain kf pm0 where "buildJWTKeyfunc P cfg = Inr kf"
    "pm_keyfunc pm = kf" "pm_oidcProvider pm = None" "uc_entries (pm_userInfoCache pm) = []"
    by (rule new_managerE) blast
  then show ?thesis by (auto simp: pm_ok_def dest: buildJWTKeyfunc_source)
qed

text \<open>
  (C36) A manager that is constructed is sound, reads its user from a named claim (\<^verbatim>\<open>sub\<close> if
  none is configured), has at most one key source, and never trusts a remote key set
  without binding tokens to an audience.
\<close>

theorem NewPermissionManager_secure:
  assumes "NewPermissionManagerWithJWTConfig P Y readFile path cfg uc = Inr pm"
  shows "pm_ok L genuine identified pm \<and> path \<noteq> [] \<and>
    userClaim (pm_policy pm) = (if uc = [] then ''sub'' else uc) \<and>
    (\<forall>c. pm_keyfunc pm = Some (JwksRemote c) \<longrightarrow>
       jc_url c = JWKSURL cfg \<and> audience (pm_policy pm) \<noteq> [] \<and> audience (pm_policy pm) = cfg_Audience cfg) \<and>
    (jwtConfigured pm \<longleftrightarrow> PublicKeyPEM cfg \<noteq> [] \<or> JWKSURL cfg \<noteq> [] \<or> JWKSJSON cfg \<noteq> [])"
proof -
  from assms obtain kf pm0 where "path \<noteq> []" and k: "buildJWTKeyfunc P cfg = Inr kf"
    and "JWKSURL cfg = [] \<or> cfg_Audience cfg \<noteq> []" "pm_keyfunc pm = kf"
    "pm_policy pm = \<lparr>userClaim = (if uc = [] then ''sub'' else uc), audience = cfg_Audience cfg, issuer = cfg_Issuer cfg\<rparr>"
    by (rule new_managerE) blast
  moreover have "jwtConfigured pm \<longleftrightarrow> PublicKeyPEM cfg \<noteq> [] \<or> JWKSURL cfg \<noteq> [] \<or> JWKSJSON cfg \<noteq> []"
    using buildJWTKeyfunc_source(3) [OF k] \<open>pm_keyfunc pm = kf\<close> by (simp add: jwtConfigured_def)
  ultimately show ?thesis
    using new_manager_ok [OF assms] buildJWTKeyfunc_source(2) [OF k] by auto
qed

definition no_pem :: pem_lib where
  "no_pem = \<lparr>pem_decode = (\<lambda>s. None), parse_pkix = (\<lambda>b. Inl []), parse_pkcs1 = (\<lambda>b. Inl [])\<rparr>"

definition idp_config :: JWTKeyConfig where
  "idp_config = \<lparr>PublicKeyPEM = [], JWKSURL = ''https://idp/keys'', JWKSJSON = [], RefreshInterval = 300,
     cfg_Audience = ''vault'', cfg_Issuer = []\<rparr>"

theorem NewPermissionManager_secure_witness:
  "\<exists>pm. NewPermissionManagerWithJWTConfig no_pem (ref_yaml [(''v2'', ops_doc)])
      (\<lambda>p. Inr ''v2'') ''perms.yaml'' idp_config [] = Inr pm \<and>
     jwtConfigured pm \<and> userClaim (pm_policy pm) = ''sub'' \<and>
   (\<exists>e. NewPermissionManagerWithJWTConfig no_pem (ref_yaml [(''v2'', ops_doc)])
      (\<lambda>p. Inr ''v2'') ''perms.yaml'' (idp_config\<lparr>cfg_Audience := []\<rparr>) [] = Inl e)"
proof -
  let ?new = "\<lambda>cfg. NewPermissionManagerWithJWTConfig no_pem
      (ref_yaml [(''v2'', ops_doc)]) (\<lambda>p. Inr ''v2'') ''perms.yaml'' cfg []"
  have ok: "\<not> isl (?new idp_config)" by code_simp
  have bad: "isl (?new (idp_config\<lparr>cfg_Audience := []\<rparr>))" by code_simp
  have url: "JWKSURL idp_config \<noteq> []" by (simp add: idp_config_def)
  from ok obtain pm where pm: "?new idp_config = Inr pm" by (cases "?new idp_config") simp_all
  from bad obtain e where e: "?new (idp_config\<lparr>cfg_Audience := []\<rparr>) = Inl e"
    by (cases "?new (idp_config\<lparr>cfg_Audience := []\<rparr>)") simp_all
  from NewPermissionManager_secure [OF pm] url pm e show ?thesis by (metis (full_types))
qed

end
