(* ===== verification/Web_Auth.thy ===== *)
theory Web_Auth
  imports Token_Properties
begin

text \<open>
  The authentication of web requests (ui.go: \<^verbatim>\<open>withAuth\<close>). A request is what the code reads
  of it: \<^verbatim>\<open>r.Header.Get\<close>, \<^verbatim>\<open>r.FormValue\<close> and \<^verbatim>\<open>r.URL.Query().Get\<close> are functions that give the
  empty string for what is missing. The wrapper either answers 401 or calls the wrapped
  handler with the permissions it stored in the context (\<^term>\<open>None\<close> if it stored none).
\<close>

section \<open>Requests\<close>

record http_request =
  rq_method :: string
  rq_host :: string
  rq_path :: string
  rq_header :: "string \<Rightarrow> string"
  rq_form :: "string \<Rightarrow> string"
  rq_query :: "string \<Rightarrow> string"

datatype auth_result =
    Unauthorized
  | Forward "UserPermissions option"

record auth_headers =
  ah_user :: string
  ah_admin :: string
  ah_adminValue :: string

section \<open>Authentication\<close>

text \<open>The two attempts with a bearer token: the user, if one succeeds.\<close>

definition bearer_user ::
    "'s auth_lib \<Rightarrow> PermissionManager \<Rightarrow> string \<Rightarrow> 's \<Rightarrow> string option \<times> PermissionManager \<times> 's" where
  "bearer_user L pm token s =
     (let (jwt_result, pm1, s1) =
        (if jwtConfigured pm \<and> looksLikeJWT token
         then ValidateJWT L pm token s
         else (Inl NotConfigured, pm, s))
      in case jwt_result of
           Inr u \<Rightarrow> (Some u, pm1, s1)
         | Inl e \<Rightarrow>
             (case ValidateAccessToken L pm1 token s1 of
                (Inr u, pm2, s2) \<Rightarrow> (Some u, pm2, s2)
              | (Inl e', pm2, s2) \<Rightarrow> (None, pm2, s2)))"

definition header_user ::
    "'a perm_tables_scheme \<Rightarrow> auth_headers \<Rightarrow> http_request \<Rightarrow> UserPermissions option" where
  "header_user pm ah r =
     (if ah_user ah \<noteq> [] then
        (let u = trimSpace (rq_header r (ah_user ah))
         in if u \<noteq> [] then
              (let up = GetUserPermissions pm u
               in Some (if ah_admin ah \<noteq> [] \<and> ah_adminValue ah \<noteq> [] \<and>
                            rq_header r (ah_admin ah) = ah_adminValue ah
                        then up\<lparr>isAdmin := True\<rparr> else up))
            else None)
      else None)"

definition withAuth ::
    "'s auth_lib \<Rightarrow> auth_headers \<Rightarrow> bool \<Rightarrow> PermissionManager option \<Rightarrow> http_request \<Rightarrow> 's \<Rightarrow>
     auth_result \<times> PermissionManager option \<times> 's" where
  "withAuth L ah allowUnauthenticated permMgr r s =
     (case permMgr of
        None \<Rightarrow> (if allowUnauthenticated then Forward None else Unauthorized, None, s)
      | Some pm \<Rightarrow>
          (let authHeader = rq_header r ''Authorization'';
               (bearer, pm1, s1) =
                 (if hasPrefix authHeader ''Bearer ''
                  then bearer_user L pm (trimPrefix authHeader ''Bearer '') s
                  else (None, pm, s))
           in case bearer of
                Some u \<Rightarrow> (Forward (Some (GetUserPermissions pm1 u)), Some pm1, s1)
              | None \<Rightarrow>
                  (case header_user pm1 ah r of
                     Some up \<Rightarrow> (Forward (Some up), Some pm1, s1)
                   | None \<Rightarrow> (Unauthorized, Some pm1, s1))))"

section \<open>What authentication keeps\<close>

text \<open>Token validation changes the key and identity caches, never the tables or the policy.\<close>

definition same_policy :: "PermissionManager \<Rightarrow> PermissionManager \<Rightarrow> bool" where
  "same_policy pm pm' \<longleftrightarrow>
     permissions pm' = permissions pm \<and> admins pm' = admins pm \<and>
     namespacePermissions pm' = namespacePermissions pm \<and> pm_policy pm' = pm_policy pm \<and>
     pm_oidcProvider pm' = pm_oidcProvider pm"

lemma same_policy_refl [simp]: "same_policy pm pm"
  by (simp add: same_policy_def)

lemma same_policy_trans: "same_policy pm pm' \<Longrightarrow> same_policy pm' pm'' \<Longrightarrow> same_policy pm pm''"
  by (simp add: same_policy_def)

lemma same_policy_user [simp]: "same_policy pm pm' \<Longrightarrow> GetUserPermissions pm' u = GetUserPermissions pm u"
  by (simp add: same_policy_def GetUserPermissions_def)

lemma ValidateJWT_same: "ValidateJWT L pm tok s = (r, pm', s') \<Longrightarrow> same_policy pm pm'"
  by (auto simp: ValidateJWT_def Let_def same_policy_def
      split: option.splits prod.splits sum.splits if_splits)

lemma ValidateAccessToken_same: "ValidateAccessToken L pm tok s = (r, pm', s') \<Longrightarrow> same_policy pm pm'"
  by (auto simp: ValidateAccessToken_def Let_def same_policy_def
      split: option.splits prod.splits sum.splits)

lemma bearer_user_same: "bearer_user L pm tok s = (r, pm', s') \<Longrightarrow> same_policy pm pm'"
  by (auto simp: bearer_user_def Let_def
      split: prod.splits sum.splits if_splits
      dest!: ValidateJWT_same ValidateAccessToken_same intro: same_policy_trans)

lemma header_user_same: "same_policy pm pm' \<Longrightarrow> header_user pm' ah r = header_user pm ah r"
  by (simp add: header_user_def Let_def)

section \<open>Why a user is accepted\<close>

text \<open>The two justifications of a bearer token, in terms of the contract of the libraries.\<close>

definition jwt_justified ::
    "'s auth_lib \<Rightarrow> (string \<Rightarrow> rsa_key \<Rightarrow> bool) \<Rightarrow> (rsa_key \<Rightarrow> string \<Rightarrow> string \<Rightarrow> claims \<Rightarrow> bool) \<Rightarrow>
     (claims \<Rightarrow> int \<Rightarrow> bool) \<Rightarrow> PermissionManager \<Rightarrow> string \<Rightarrow> string \<Rightarrow> bool" where
  "jwt_justified L genuine verifies unexpired pm tok u \<longleftrightarrow>
     (\<exists>f k cs alg t. pm_keyfunc pm = Some f \<and> trusts genuine f k \<and> verifies k alg tok cs \<and>
        alg \<in> set valid_methods \<and> unexpired cs t \<and> jwt_username (pm_policy pm) cs = Inr u)"

definition userinfo_justified ::
    "'s auth_lib \<Rightarrow> (string \<Rightarrow> claims \<Rightarrow> int \<Rightarrow> bool) \<Rightarrow> PermissionManager \<Rightarrow> string \<Rightarrow> string \<Rightarrow> bool" where
  "userinfo_justified L identified pm tok u \<longleftrightarrow>
     pm_oidcProvider pm \<noteq> None \<and>
     (\<exists>tok0 cs t. tokenCacheKey L tok0 = tokenCacheKey L tok \<and> identified tok0 cs t \<and>
        userinfo_username (pm_policy pm) cs = Inr u)"

text \<open>
  What the trusted headers justify: the rights of the user they name, with the admin flag
  when the configured admin header has the configured, non-empty value.
\<close>

definition header_justified ::
    "'a perm_tables_scheme \<Rightarrow> auth_headers \<Rightarrow> http_request \<Rightarrow> UserPermissions \<Rightarrow> bool" where
  "header_justified pm ah r up \<longleftrightarrow>
     ah_user ah \<noteq> [] \<and>
     (\<exists>u. u = trimSpace (rq_header r (ah_user ah)) \<and> u \<noteq> [] \<and>
        (up = GetUserPermissions pm u \<or>
         (up = GetUserPermissions pm u\<lparr>isAdmin := True\<rparr> \<and> ah_admin ah \<noteq> [] \<and>
          ah_adminValue ah \<noteq> [] \<and> rq_header r (ah_admin ah) = ah_adminValue ah)))"

lemma header_user_justified: "header_user pm ah r = Some up \<Longrightarrow> header_justified pm ah r up"
  by (auto simp: header_user_def header_justified_def Let_def split: if_splits)

lemma access_token_provider:
  "ValidateAccessToken L pm tok s = (Inr u, pm', s') \<Longrightarrow> pm_oidcProvider pm \<noteq> None"
  by (cases "pm_oidcProvider pm") (simp_all add: ValidateAccessToken_def)

text \<open>The first attempt leaves \<open>pm1\<close>; either it succeeded or the second one decides.\<close>

lemma bearer_userE:
  assumes "bearer_user L pm tok s = (r, pm', s')"
  obtains (jwt) u where "ValidateJWT L pm tok s = (Inr u, pm', s')" "r = Some u"
  | (userinfo) pm1 s1 a where "pm1 = pm \<or> (\<exists>e. ValidateJWT L pm tok s = (Inl e, pm1, s1))"
      "ValidateAccessToken L pm1 tok s1 = (a, pm', s')"
      "r = (case a of Inr u \<Rightarrow> Some u | Inl e \<Rightarrow> None)"
proof -
  obtain j pm1 s1 where j: "(if jwtConfigured pm \<and> looksLikeJWT tok then ValidateJWT L pm tok s
      else (Inl NotConfigured, pm, s)) = (j, pm1, s1)"
    by (metis prod.exhaust)
  obtain a pm2 s2 where a: "ValidateAccessToken L pm1 tok s1 = (a, pm2, s2)"
    by (metis prod.exhaust)
  show thesis
  proof (cases j)
    case (Inl e)
    have "pm1 = pm \<or> (\<exists>e. ValidateJWT L pm tok s = (Inl e, pm1, s1))"
      using j Inl by (auto split: if_splits)
    moreover have "pm' = pm2" "s' = s2" "r = (case a of Inr u \<Rightarrow> Some u | Inl e \<Rightarrow> None)"
      using assms j Inl a by (auto simp: bearer_user_def split: sum.splits)
    ultimately show thesis using userinfo a by blast
  next
    case (Inr u)
    then show thesis using assms j jwt by (auto simp: bearer_user_def split: if_splits)
  qed
qed

context token_library
begin

lemma bearer_user_keeps:
  assumes "pm_ok L genuine identified pm" "bearer_user L pm tok s = (r, pm', s')"
  shows "pm_ok L genuine identified pm'"
  using assms(2)
proof (cases rule: bearer_userE)
  case jwt
  then show ?thesis using assms(1) jwt_keeps by blast
next
  case (userinfo pm1 s1 a)
  then have "pm_ok L genuine identified pm1" using assms(1) jwt_keeps by blast
  with userinfo(2) show ?thesis using access_token(1) by blast
qed

lemma bearer_user_sound:
  assumes ok: "pm_ok L genuine identified pm" and b: "bearer_user L pm tok s = (Some u, pm', s')"
  shows "jwt_justified L genuine verifies unexpired pm tok u \<or> userinfo_justified L identified pm tok u"
  using b
proof (cases rule: bearer_userE)
  case (jwt x)
  with jwt_sound [OF ok jwt(1)] show ?thesis unfolding jwt_justified_def by blast
next
  case (userinfo pm1 s1 a)
  have ok1: "pm_ok L genuine identified pm1" and same: "same_policy pm pm1"
    using userinfo(1) ok jwt_keeps ValidateJWT_same by auto
  have a: "ValidateAccessToken L pm1 tok s1 = (Inr u, pm', s')"
    using userinfo(2,3) by (simp split: sum.splits)
  from access_token(2) [OF ok1 a refl] access_token_provider [OF a] same show ?thesis
    unfolding userinfo_justified_def same_policy_def by metis
qed

end

text \<open>Authentication keeps a sound manager sound and its tables as they are.\<close>

lemma withAuth_keeps:
  assumes "token_library L genuine verifies unexpired identified" "pm_ok L genuine identified pm"
    and "withAuth L ah allow (Some pm) r s = (a, pmo', s')"
  shows "\<exists>pm'. pmo' = Some pm' \<and> pm_ok L genuine identified pm' \<and> same_policy pm pm'"
proof -
  let ?h = "rq_header r ''Authorization''"
  obtain b pm1 s1 where b: "(if hasPrefix ?h ''Bearer '' then bearer_user L pm (trimPrefix ?h ''Bearer '') s
      else (None, pm, s)) = (b, pm1, s1)"
    by (metis prod.exhaust)
  have "pm_ok L genuine identified pm1" "same_policy pm pm1"
    using b assms(2) token_library.bearer_user_keeps [OF assms(1)] bearer_user_same by (auto split: if_splits)
  moreover have "pmo' = Some pm1"
    using assms(3) b by (cases b; cases "header_user pm1 ah r") (auto simp: withAuth_def)
  ultimately show ?thesis by blast
qed

lemma withAuth_none [simp]:
  "withAuth L ah allow None r s = (if allow then Forward None else Unauthorized, None, s)"
  by (simp add: withAuth_def)

section \<open>Properties\<close>

text \<open>
  (C7) A web request gets permissions only for a reason: they are those the tables give to a
  user that a valid bearer token or a UserInfo answer names or, with no accepted bearer
  token, the trusted user header, which must not be blank; only the configured admin
  header with its configured, non-empty value makes that user an admin. Without permission manager every request is refused unless
  the development switch is set, and only then is a request forwarded without permissions.
\<close>

theorem withAuth_sound:
  assumes "token_library L genuine verifies unexpired identified"
    and "\<And>pm. pmo = Some pm \<Longrightarrow> pm_ok L genuine identified pm"
    and "withAuth L ah allow pmo r s = (Forward up, pmo', s')"
  shows "(case pmo of
            None \<Rightarrow> allow \<and> up = None
          | Some pm \<Rightarrow>
              (\<exists>pm'. pmo' = Some pm' \<and> pm_ok L genuine identified pm' \<and> same_policy pm pm') \<and>
              ((\<exists>u tok. up = Some (GetUserPermissions pm u) \<and> rq_header r ''Authorization'' = ''Bearer '' @ tok \<and>
                  (jwt_justified L genuine verifies unexpired pm tok u \<or> userinfo_justified L identified pm tok u)) \<or>
               ((hasPrefix (rq_header r ''Authorization'') ''Bearer '' \<longrightarrow>
                   fst (bearer_user L pm (trimPrefix (rq_header r ''Authorization'') ''Bearer '') s) = None) \<and>
                (\<exists>p. up = Some p \<and> header_justified pm ah r p))))"
proof (cases pmo)
  case None
  with assms(3) show ?thesis by (auto simp: withAuth_def split: if_splits)
next
  case (Some pm)
  note ok = assms(2) [OF Some]
  let ?h = "rq_header r ''Authorization''"
  obtain b pm1 s1 where b: "(if hasPrefix ?h ''Bearer '' then bearer_user L pm (trimPrefix ?h ''Bearer '') s
      else (None, pm, s)) = (b, pm1, s1)"
    by (metis prod.exhaust)
  have ok1: "pm_ok L genuine identified pm1" and same: "same_policy pm pm1"
    using b ok token_library.bearer_user_keeps [OF assms(1)] bearer_user_same by (auto split: if_splits)
  show ?thesis
  proof (cases b)
    case None
    then have up: "up = header_user pm ah r" "up \<noteq> None" and "pmo' = Some pm1"
      using assms(3) Some b header_user_same [OF same]
      by (cases "header_user pm ah r"; auto simp: withAuth_def)+
    moreover have "\<exists>p. up = Some p \<and> header_justified pm ah r p"
      using up header_user_justified by (metis not_None_eq)
    moreover have "hasPrefix ?h ''Bearer '' \<longrightarrow> fst (bearer_user L pm (trimPrefix ?h ''Bearer '') s) = None"
      using b None by auto
    ultimately show ?thesis
      using ok1 same unfolding Some option.case by blast
  next
    case u: (Some u)
    with b have bu: "bearer_user L pm (trimPrefix ?h ''Bearer '') s = (Some u, pm1, s1)"
      and "hasPrefix ?h ''Bearer ''"
      by (auto split: if_splits)
    then have "?h = ''Bearer '' @ trimPrefix ?h ''Bearer ''"
      by (auto simp: hasPrefix_def trimPrefix_def prefix_def)
    moreover have "up = Some (GetUserPermissions pm u)" "pmo' = Some pm1"
      using u assms(3) Some b same by (simp_all add: withAuth_def)
    ultimately show ?thesis
      using token_library.bearer_user_sound [OF assms(1) ok bu] ok1 same
      unfolding Some option.case by blast
  qed
qed

lemma admin_source:
  assumes "withAuth L ah allow (Some pm) r s = (Forward (Some up), pmo', s')" and "isAdmin up"
  shows "username up \<in> set (admins pm) \<or>
    (ah_user ah \<noteq> [] \<and> ah_admin ah \<noteq> [] \<and> ah_adminValue ah \<noteq> [] \<and>
     rq_header r (ah_admin ah) = ah_adminValue ah)"
proof -
  let ?h = "rq_header r ''Authorization''"
  obtain b pm1 s1 where b: "(if hasPrefix ?h ''Bearer '' then bearer_user L pm (trimPrefix ?h ''Bearer '') s
      else (None, pm, s)) = (b, pm1, s1)"
    by (metis prod.exhaust)
  then have same: "same_policy pm pm1"
    using bearer_user_same by (auto split: if_splits)
  have listed: "isAdmin (GetUserPermissions pm u) \<Longrightarrow> username (GetUserPermissions pm u) \<in> set (admins pm)" for u
    by (simp add: GetUserPermissions_def admin_listed_iff)
  show ?thesis
  proof (cases b)
    case None
    then have "header_user pm ah r = Some up"
      using assms(1) b header_user_same [OF same] by (auto simp: withAuth_def split: option.splits)
    with assms(2) listed show ?thesis
      by (auto simp: header_user_def Let_def split: if_splits)
  next
    case (Some u)
    with assms b same listed show ?thesis by (auto simp: withAuth_def)
  qed
qed

text \<open>Whoever the user is, the patterns are those the tables list under that name.\<close>

lemma withAuth_patterns:
  assumes "withAuth L ah allow (Some pm) r s = (Forward (Some up), pmo', s')"
  shows "patterns up = (case map_of (permissions pm) (username up) of None \<Rightarrow> [] | Some ps \<Rightarrow> ps)"
proof -
  let ?h = "rq_header r ''Authorization''"
  obtain b pm1 s1 where b: "(if hasPrefix ?h ''Bearer '' then bearer_user L pm (trimPrefix ?h ''Bearer '') s
      else (None, pm, s)) = (b, pm1, s1)"
    by (metis prod.exhaust)
  then have same: "same_policy pm pm1"
    using bearer_user_same by (auto split: if_splits)
  have listed: "patterns (GetUserPermissions pm u) =
      (case map_of (permissions pm) (username (GetUserPermissions pm u)) of None \<Rightarrow> [] | Some ps \<Rightarrow> ps)" for u
    by (simp add: GetUserPermissions_def)
  show ?thesis
  proof (cases b)
    case None
    then have "header_user pm ah r = Some up"
      using assms b header_user_same [OF same] by (auto simp: withAuth_def split: option.splits)
    with listed show ?thesis
      by (auto simp: header_user_def Let_def split: if_splits)
  next
    case (Some u)
    with assms b same listed show ?thesis by (auto simp: withAuth_def)
  qed
qed

definition proxy_headers :: auth_headers where
  "proxy_headers = \<lparr>ah_user = ''X-User'', ah_admin = ''X-Admin'', ah_adminValue = ''yes''\<rparr>"

definition proxied :: "string \<Rightarrow> string \<Rightarrow> http_request" where
  "proxied u a = \<lparr>rq_method = ''GET'', rq_host = ''vault.local'', rq_path = ''/'',
     rq_header = (\<lambda>h. if h = ''X-User'' then u else if h = ''X-Admin'' then a else []),
     rq_form = (\<lambda>_. []), rq_query = (\<lambda>_. [])\<rparr>"

definition plain_manager :: PermissionManager where
  "plain_manager =
     \<lparr>permissions = [(''ann'', [''/app/*''])], admins = [''root''], namespacePermissions = [],
      pm_configPath = ''perms.yaml'', pm_keyfunc = None,
      pm_policy = \<lparr>userClaim = ''sub'', audience = [], issuer = []\<rparr>,
      pm_oidcProvider = None, pm_userInfoCache = \<lparr>uc_ttl = 0, uc_entries = []\<rparr>\<rparr>"

lemma plain_manager_ok: "pm_ok L g ident plain_manager"
  by (simp add: pm_ok_def plain_manager_def)

theorem withAuth_sound_witness:
  "\<exists>pmo' s'. withAuth (ref_lib [] [] []) proxy_headers False (Some plain_manager) (proxied '' ann '' []) \<lparr>rn_clock = 0, rn_serves = None\<rparr> =
     (Forward (Some (GetUserPermissions plain_manager ''ann'')), pmo', s') \<and>
   (\<exists>pm'. pmo' = Some pm' \<and> same_policy plain_manager pm')"
proof -
  let ?r = "proxied '' ann '' []" and ?s = "\<lparr>rn_clock = 0, rn_serves = None\<rparr>"
  have "fst (withAuth (ref_lib [] [] []) proxy_headers False (Some plain_manager) ?r ?s) =
      Forward (Some (GetUserPermissions plain_manager ''ann''))"
    by code_simp
  then obtain pmo' s' where w: "withAuth (ref_lib [] [] []) proxy_headers False (Some plain_manager) ?r ?s =
      (Forward (Some (GetUserPermissions plain_manager ''ann'')), pmo', s')"
    by (metis prod.collapse)
  have "\<And>pm. Some plain_manager = Some pm \<Longrightarrow> pm_ok (ref_lib [] [] []) (ref_genuine []) (ref_identified []) pm"
    using plain_manager_ok by simp
  from withAuth_sound [OF ref_tokens.token_library_axioms this w] w show ?thesis by auto
qed

text \<open>
  A token that the JWT checks reject, for instance for a wrong audience or issuer, is not
  yet rejected: when UserInfo authentication is enabled, the same bearer is tried as an
  opaque access token, and if the provider answers for it the request is accepted.
\<close>

lemma withAuth_userinfo_fallback:
  assumes "hasPrefix (rq_header r ''Authorization'') ''Bearer ''"
    and "tok = trimPrefix (rq_header r ''Authorization'') ''Bearer ''"
    and "jwtConfigured pm" "looksLikeJWT tok"
    and "ValidateJWT L pm tok s = (Inl e, pm1, s1)"
    and "ValidateAccessToken L pm1 tok s1 = (Inr u, pm2, s2)"
  shows "withAuth L ah allow (Some pm) r s = (Forward (Some (GetUserPermissions pm u)), Some pm2, s2)"
proof -
  have "bearer_user L pm tok s = (Some u, pm2, s2)"
    using assms by (simp add: bearer_user_def)
  moreover from this have "GetUserPermissions pm2 u = GetUserPermissions pm u"
    using bearer_user_same by (metis same_policy_user)
  ultimately show ?thesis using assms(1,2) by (simp add: withAuth_def)
qed

end
