(* ===== verification/Admin_UI.thy ===== *)
theory Admin_UI
  imports Web_Auth Tree_View Vault_Atomic
begin

text \<open>
  The web interface (ui.go: \<^verbatim>\<open>newAdminHandler\<close> with its six handlers, \<^verbatim>\<open>withFrameDenial\<close>,
  and the cross-origin protection of Go's \<^verbatim>\<open>net/http\<close> around them). A handler takes the
  permissions of the user, the request, the vault manager and the state of the world, and
  returns its response with the new manager and world.
\<close>

section \<open>Responses\<close>

text \<open>The errors that handlers show, whose text is a parameter (\<^verbatim>\<open>fmt.Sprintf("%v")\<close>).\<close>

datatype ui_failure =
    VaultFailure vault_error
  | PathFailure path_error
  | ValueRequired
  | WriteForbidden
  | ReadDenied string
  | ServerFailure k8s_error

text \<open>\<open>Aborted\<close> is the closed connection after a handler panicked.\<close>

datatype response =
    Page UIState
  | NotFoundPage
  | HttpError nat string
  | Redirect nat string
  | Download bytes
  | Aborted

record ('s, 'id) ui_env =
  ue_vault :: "('s, 'id) vault_env"
  ue_text :: "ui_failure \<Rightarrow> string"

type_synonym ('s, 'id) handler =
  "UserPermissions option \<Rightarrow> http_request \<Rightarrow> 'id VaultManager \<Rightarrow> 's \<Rightarrow>
   response \<times> 'id VaultManager \<times> 's"

section \<open>The handlers\<close>

definition load_failed :: "('s, 'id) ui_env \<Rightarrow> ui_failure \<Rightarrow> response" where
  "load_failed U f = Page (zero_state\<lparr>Error := ''Failed to load vault: '' @ ue_text U f\<rparr>)"

definition root_handler :: "('s, 'id) ui_env \<Rightarrow> ('s, 'id) handler" where
  "root_handler U up r m s =
     (if rq_path r \<noteq> ''/'' then (NotFoundPage, m, s)
      else if IsLocked m then (Page (zero_state\<lparr>Locked := True\<rparr>), m, s)
      else (case LoadAndDecrypt (ue_vault U) m s of
              (Inl e, s1) \<Rightarrow> (load_failed U (VaultFailure e), m, s1)
            | (Inr tree, s1) \<Rightarrow>
                (let currentPath = (if rq_query r ''path'' = [] then ''/'' else rq_query r ''path'')
                 in (Page ((buildTreeState tree currentPath [] up)\<lparr>Locked := False\<rparr>), m, s1))))"

definition entry_handler :: "('s, 'id) ui_env \<Rightarrow> ('s, 'id) handler" where
  "entry_handler U up r m s =
     (if rq_method r \<noteq> ''GET'' then (HttpError 405 ''Method not allowed'', m, s)
      else if IsLocked m then (Page (zero_state\<lparr>Locked := True\<rparr>), m, s)
      else (case LoadAndDecrypt (ue_vault U) m s of
              (Inl e, s1) \<Rightarrow> (load_failed U (VaultFailure e), m, s1)
            | (Inr tree, s1) \<Rightarrow>
                (let entryPath = rq_query r ''path''
                 in if \<not> readable up entryPath
                    then (load_failed U (ReadDenied entryPath), m, s1)
                    else (Page ((buildTreeState tree [] entryPath up)\<lparr>Locked := False\<rparr>), m, s1))))"

definition unlock_handler :: "('s, 'id) ui_env \<Rightarrow> ('s, 'id) handler" where
  "unlock_handler U up r m s =
     (if rq_method r \<noteq> ''POST'' then (HttpError 405 ''Method not allowed'', m, s)
      else if (case up of None \<Rightarrow> False | Some u \<Rightarrow> \<not> isAdmin u) then (HttpError 403 ''Forbidden'', m, s)
      else (case Unlock (ue_vault U) (rq_form r ''master_key'') m s of
              (Some ErrVaultAlreadyUnlocked, m1, s1) \<Rightarrow> (HttpError 409 ''Vault is already unlocked'', m1, s1)
            | (Some e, m1, s1) \<Rightarrow>
                (Page (zero_state\<lparr>Locked := True, Error := ''Invalid Master Key provided.''\<rparr>), m1, s1)
            | (None, m1, s1) \<Rightarrow> (Redirect 303 ''/'', m1, s1)))"

text \<open>What both writing handlers do with the outcome of \<^verbatim>\<open>UpdateVault\<close>.\<close>

definition write_response :: "('s, 'id) ui_env \<Rightarrow> string \<Rightarrow> string \<Rightarrow> call_result \<Rightarrow> response" where
  "write_response U what to res =
     (case res of
        Returned None \<Rightarrow> Redirect 303 to
      | Returned (Some e) \<Rightarrow> HttpError 500 (what @ ue_text U (VaultFailure e))
      | Panicked \<Rightarrow> Aborted)"

definition writable :: "UserPermissions option \<Rightarrow> string \<Rightarrow> bool" where
  "writable up p = (case up of None \<Rightarrow> True | Some u \<Rightarrow> CanWrite u p)"

definition update_handler :: "('s, 'id) ui_env \<Rightarrow> ('s, 'id) handler" where
  "update_handler U up r m s =
     (if rq_method r \<noteq> ''POST'' \<or> IsLocked m
      then (HttpError 405 ''Method not allowed or Vault Locked'', m, s)
      else (let updatePath = normalizePath (trimSpace (rq_form r ''path''));
                isFolder = (rq_form r ''is_folder'' = ''true'');
                value = rq_form r ''value'';
                failed = (\<lambda>f. HttpError 500 (''Failed to save: '' @ ue_text U f))
            in case validateVaultPath updatePath of
                 Some e \<Rightarrow> (failed (PathFailure e), m, s)
               | None \<Rightarrow>
                   if \<not> isFolder \<and> value = [] then (failed ValueRequired, m, s)
                   else if \<not> writable up updatePath then (failed WriteForbidden, m, s)
                   else (case UpdateVault (ue_vault U) (updateNode updatePath isFolder value) m s of
                           (res, s1) \<Rightarrow> (write_response U ''Failed to save: '' ''/'' res, m, s1))))"

definition delete_handler :: "('s, 'id) ui_env \<Rightarrow> ('s, 'id) handler" where
  "delete_handler U up r m s =
     (if rq_method r \<noteq> ''POST'' \<or> IsLocked m
      then (HttpError 405 ''Method not allowed or Vault Locked'', m, s)
      else (let deletePath = normalizePath (rq_form r ''path'')
            in if \<not> writable up deletePath then (HttpError 403 ''Forbidden'', m, s)
               else (case UpdateVault (ue_vault U) (deleteNode deletePath) m s of
                       (res, s1) \<Rightarrow>
                         (write_response U ''Failed to delete: '' (''/?path='' @ parent_of deletePath) res, m, s1))))"

definition export_handler :: "('s, 'id) ui_env \<Rightarrow> ('s, 'id) handler" where
  "export_handler U up r m s =
     (if IsLocked m then (HttpError 403 ''Vault Locked'', m, s)
      else if (case up of None \<Rightarrow> False | Some u \<Rightarrow> \<not> CanExport u) then (HttpError 403 ''Forbidden'', m, s)
      else (case k8s_get (ue_vault U) s of
              (Inl e, s1) \<Rightarrow> (HttpError 500 (ue_text U (ServerFailure e)), m, s1)
            | (Inr sec, s1) \<Rightarrow> (Download (case vault_enc sec of None \<Rightarrow> [] | Some ct \<Rightarrow> ct), m, s1)))"

text \<open>The routes of the \<^verbatim>\<open>ServeMux\<close>, for clean paths; every other path is the root's.\<close>

definition mux :: "('s, 'id) ui_env \<Rightarrow> ('s, 'id) handler" where
  "mux U up r m s =
     (if rq_path r = ''/entry'' then entry_handler U up r m s
      else if rq_path r = ''/unlock'' then unlock_handler U up r m s
      else if rq_path r = ''/update'' then update_handler U up r m s
      else if rq_path r = ''/delete'' then delete_handler U up r m s
      else if rq_path r = ''/export'' then export_handler U up r m s
      else root_handler U up r m s)"

section \<open>Cross-origin protection and the whole handler\<close>

text \<open>
  \<^verbatim>\<open>http.CrossOriginProtection.Check\<close>: safe methods pass; otherwise \<^verbatim>\<open>Sec-Fetch-Site\<close>
  decides, or, for clients that do not send it, \<^verbatim>\<open>Origin\<close> against the host. \<open>origin_host\<close>
  is the host that \<^verbatim>\<open>url.Parse\<close> finds, if it parses.
\<close>

definition cross_origin_ok ::
    "(string \<Rightarrow> string option) \<Rightarrow> string list \<Rightarrow> http_request \<Rightarrow> bool" where
  "cross_origin_ok origin_host trusted r =
     (let origin = rq_header r ''Origin''; site = rq_header r ''Sec-Fetch-Site''
      in if rq_method r \<in> {''GET'', ''HEAD'', ''OPTIONS''} then True
         else if site = ''same-origin'' \<or> site = ''none'' then True
         else if site \<noteq> [] then origin \<in> set trusted
         else if origin = [] then True
         else origin_host origin = Some (rq_host r) \<or> origin \<in> set trusted)"

record ui_config =
  hc_trusted :: "string list"
  hc_headers :: auth_headers
  hc_DevMode :: bool

text \<open>
  The loop over \<^verbatim>\<open>CSRF_TRUSTED_ORIGINS\<close>: the first entry that the library refuses makes the
  construction fail.
\<close>

fun trust_origins :: "(string \<Rightarrow> bool) \<Rightarrow> string list \<Rightarrow> string list \<Rightarrow> string + string list" where
  "trust_origins acceptable [] trusted = Inr trusted"
| "trust_origins acceptable (origin # rest) trusted =
     (if acceptable (trimSpace origin) then trust_origins acceptable rest (trimSpace origin # trusted)
      else Inl (''invalid CSRF_TRUSTED_ORIGINS entry '' @ origin))"

type_synonym header_list = "(string \<times> string) list"

definition frame_headers :: header_list where
  "frame_headers = [(''X-Frame-Options'', ''DENY''), (''Content-Security-Policy'', ''frame-ancestors '' @ [CHR 0x27] @ ''none'' @ [CHR 0x27])]"

record http_reply =
  reply_headers :: header_list
  reply_body :: response

definition withFrameDenial :: "response \<times> 'b \<Rightarrow> http_reply \<times> 'b" where
  "withFrameDenial out = (case out of (resp, rest) \<Rightarrow> (\<lparr>reply_headers = frame_headers, reply_body = resp\<rparr>, rest))"

definition admin_request ::
    "'s auth_lib \<Rightarrow> ('s, 'id) ui_env \<Rightarrow> (string \<Rightarrow> string option) \<Rightarrow> string list \<Rightarrow> auth_headers \<Rightarrow> bool \<Rightarrow>
     http_request \<Rightarrow> PermissionManager option \<Rightarrow> 'id VaultManager \<Rightarrow> 's \<Rightarrow>
     http_reply \<times> PermissionManager option \<times> 'id VaultManager \<times> 's" where
  "admin_request L U origin_host trusted ah dev r pmo m s =
     withFrameDenial
       (if \<not> cross_origin_ok origin_host trusted r
        then (HttpError 403 ''cross-origin request detected'', pmo, m, s)
        else (case withAuth L ah dev pmo r s of
                (Unauthorized, pmo1, s1) \<Rightarrow> (HttpError 401 ''Unauthorized'', pmo1, m, s1)
              | (Forward up, pmo1, s1) \<Rightarrow>
                  (case mux U up r m s1 of (resp, m1, s2) \<Rightarrow> (resp, pmo1, m1, s2))))"

definition newAdminHandler ::
    "'s auth_lib \<Rightarrow> ('s, 'id) ui_env \<Rightarrow> (string \<Rightarrow> string option) \<Rightarrow> (string \<Rightarrow> bool) \<Rightarrow> ui_config \<Rightarrow>
     string + (http_request \<Rightarrow> PermissionManager option \<Rightarrow> 'id VaultManager \<Rightarrow> 's \<Rightarrow>
       http_reply \<times> PermissionManager option \<times> 'id VaultManager \<times> 's)" where
  "newAdminHandler L U origin_host acceptable cfg =
     (case trust_origins acceptable (hc_trusted cfg) [] of
        Inl e \<Rightarrow> Inl e
      | Inr trusted \<Rightarrow> Inr (admin_request L U origin_host trusted (hc_headers cfg) (hc_DevMode cfg)))"

section \<open>Facts on the handlers\<close>

lemma locked_page: "isLocked m \<Longrightarrow> LoadAndDecrypt E m s = (Inl ErrVaultLocked, s)"
  by (rule locked_refuses)

text \<open>Only the unlock handler changes the manager.\<close>

lemma mux_manager:
  assumes "mux U up r m s = (resp, m', s')" "m' \<noteq> m"
  shows "rq_path r = ''/unlock'' \<and> unlock_handler U up r m s = (resp, m', s')"
  using assms
  by (auto simp: mux_def root_handler_def entry_handler_def update_handler_def delete_handler_def
      export_handler_def Let_def split: if_splits sum.splits prod.splits option.splits)

end
