(* ===== verification/Reference_World.thy ===== *)
theory Reference_World
  imports Vault_Atomic
begin

text \<open>
  A concrete outside world: an API server with optimistic concurrency whose other writers
  follow a script (one entry per call, the writes they commit before it), a tagging
  cipher in the place of \<^verbatim>\<open>age\<close>. It satisfies the contracts of Vault_World, so the properties that rest on them are not
  vacuous, and it is what the witnesses run on.
\<close>

section \<open>The server\<close>

text \<open>
  A write is the data it stores (\<^term>\<open>None\<close> is a deletion) and whether it is ours. The
  version of a write is its position in the list, in unary, so versions never repeat.
\<close>

type_synonym put_or_delete = "(string, bytes) gomap option option"

record ref_world =
  writes :: "(bool \<times> put_or_delete) list"
  script :: "put_or_delete list list"

fun stamp :: "nat \<Rightarrow> (bool \<times> put_or_delete) list \<Rightarrow> commit list" where
  "stamp n [] = []"
| "stamp n ((mine, None) # ws) = Theirs None # stamp (Suc n) ws"
| "stamp n ((mine, Some d) # ws) =
     (let sec = \<lparr>sec_data = d, sec_rv = replicate n (CHR ''v'')\<rparr>
      in (if mine then Ours sec else Theirs (Some sec))) # stamp (Suc n) ws"

definition ref_hist :: "ref_world \<Rightarrow> commit list" where
  "ref_hist s = stamp 1 (writes s)"

definition others_write :: "ref_world \<Rightarrow> ref_world" where
  "others_write s =
     (case script s of
        [] \<Rightarrow> s
      | ws # rest \<Rightarrow> s\<lparr>writes := writes s @ map (Pair False) ws, script := rest\<rparr>)"

definition we_write :: "(string, bytes) gomap option \<Rightarrow> ref_world \<Rightarrow> ref_world" where
  "we_write d s = s\<lparr>writes := writes s @ [(True, Some d)]\<rparr>"

definition ref_get :: "ref_world \<Rightarrow> (k8s_error + k8s_secret) \<times> ref_world" where
  "ref_get s =
     (let s1 = others_write s
      in case current (ref_hist s1) of
           None \<Rightarrow> (Inl NotFound, s1)
         | Some sec \<Rightarrow> (Inr sec, s1))"

definition ref_create :: "(string, bytes) gomap \<Rightarrow> ref_world \<Rightarrow> (k8s_error + unit) \<times> ref_world" where
  "ref_create d s =
     (let s1 = others_write s
      in case current (ref_hist s1) of
           None \<Rightarrow> (Inr (), we_write (Some d) s1)
         | Some sec \<Rightarrow> (Inl AlreadyExists, s1))"

definition ref_update :: "k8s_secret \<Rightarrow> ref_world \<Rightarrow> (k8s_error + unit) \<times> ref_world" where
  "ref_update sec s =
     (let s1 = others_write s
      in case current (ref_hist s1) of
           None \<Rightarrow> (Inl NotFound, s1)
         | Some old \<Rightarrow>
             if sec_rv old = sec_rv sec then (Inr (), we_write (sec_data sec) s1)
             else (Inl Conflict, s1))"

section \<open>The cipher\<close>

definition newline :: char where
  "newline = CHR 0x0A"

definition ref_encrypt :: "string \<Rightarrow> bytes \<Rightarrow> ref_world \<Rightarrow> (string + bytes) \<times> ref_world" where
  "ref_encrypt rcp pt s = (Inr (rcp @ newline # pt), s)"

definition ref_decrypt :: "string \<Rightarrow> bytes \<Rightarrow> string + (string + bytes)" where
  "ref_decrypt i ct =
     (if prefix (i @ [newline]) ct then Inr (Inr (drop (length i + 1) ct))
      else Inl ''no identity matched any of the recipients'')"

definition ref_parse :: "string \<Rightarrow> string + string age_identity list" where
  "ref_parse key = (if key = [] then Inl ''no secret keys found'' else Inr [X25519Identity key])"

definition ref_env :: "(ref_world, string) vault_env" where
  "ref_env =
     \<lparr>k8s_get = ref_get, k8s_create = ref_create, k8s_update = ref_update,
      sleep_ms = (\<lambda>n s. s), age_parse = ref_parse, age_recipient = (\<lambda>i. i),
      age_encrypt = ref_encrypt, age_decrypt = ref_decrypt\<rparr>"

lemmas ref_defs = ref_env_def ref_get_def ref_create_def ref_update_def ref_encrypt_def
  ref_decrypt_def ref_parse_def ref_hist_def
  others_write_def we_write_def

section \<open>The contracts hold\<close>

lemma stamp_append: "stamp n (xs @ ys) = stamp n xs @ stamp (n + length xs) ys"
  by (induction n xs rule: stamp.induct) auto

lemma stamp_theirs: "list_all (\<lambda>c. \<not> is_ours c) (stamp n (map (Pair False) ws))"
proof (induction ws arbitrary: n)
  case (Cons w ws)
  then show ?case by (cases w) auto
qed simp

lemma stamp_versions:
  "\<forall>v \<in> set (map sec_rv (List.map_filter content (stamp n ws))). n \<le> length v"
  by (induction n ws rule: stamp.induct) (auto simp: map_filter_simps Let_def)

lemma stamp_distinct: "distinct (map sec_rv (List.map_filter content (stamp n ws)))"
proof (induction n ws rule: stamp.induct)
  case (3 n mine d ws)
  have "\<not> Suc n \<le> length (replicate n (CHR ''v''))" by simp
  then have "replicate n (CHR ''v'') \<notin> set (map sec_rv (List.map_filter content (stamp (Suc n) ws)))"
    using stamp_versions [of "Suc n" ws] by blast
  with 3 show ?case by (auto simp: map_filter_simps Let_def)
qed (auto simp: map_filter_simps)

lemma others_moved: "moved (ref_hist s) (ref_hist (others_write s))"
  by (auto simp: ref_hist_def others_write_def moved_def stamp_append stamp_theirs split: list.splits)

lemma we_write_hist:
  "\<exists>sec. ref_hist (we_write d s) = ref_hist s @ [Ours sec] \<and> sec_data sec = d"
  by (simp add: ref_hist_def we_write_def stamp_append Let_def)

interpretation ref: vault_service ref_env ref_hist
proof (unfold_locales, goal_cases)
  case (4 d s u s')
  then show ?case
    using others_moved we_write_hist
    by (fastforce simp: ref_env_def ref_create_def Let_def split: option.splits)
next
  case (6 sec s u s')
  then show ?case
    using others_moved we_write_hist
    by (fastforce simp: ref_env_def ref_update_def Let_def split: option.splits if_splits)
next
  case (10 s)
  show ?case by (simp add: versions_distinct_def ref_hist_def stamp_distinct)
qed (auto simp: ref_env_def ref_get_def ref_create_def ref_update_def ref_encrypt_def
      ref_decrypt_def Let_def others_moved split: option.splits if_splits)

end
