(* ===== verification/Vault_Properties.thy ===== *)
theory Vault_Properties
  imports Reference_World Unlock_Race
begin

text \<open>
  The properties of the vault manager, stated over its operations with the contracts of
  the world as hypotheses; the witnesses run on the world of Reference_World.
\<close>

section \<open>Attempts\<close>

text \<open>\<open>retries E i md n s s'\<close>: the first \<open>n\<close> attempts from \<open>s\<close> all end in \<^verbatim>\<open>continue\<close>, at \<open>s'\<close>.\<close>

inductive retries ::
    "('s, 'id) vault_env \<Rightarrow> 'id \<Rightarrow> (VaultTree \<Rightarrow> string + VaultTree) \<Rightarrow> nat \<Rightarrow> 's \<Rightarrow> 's \<Rightarrow> bool"
  for E :: "('s, 'id) vault_env" and i :: 'id and md :: "VaultTree \<Rightarrow> string + VaultTree" where
  first: "retries E i md 0 s s"
| again: "retries E i md n s s1 \<Longrightarrow> update_attempt E i md n s1 = (None, s2) \<Longrightarrow>
    retries E i md (Suc n) s s2"

inductive_cases retries_SucE: "retries E i md (Suc n) s s'"

lemma loop_attempts:
  "update_loop E i md left n s1 = (r, s') \<Longrightarrow> retries E i md n s s1 \<Longrightarrow>
   (\<exists>k s2. n \<le> k \<and> k < n + left \<and> retries E i md k s s2 \<and> update_attempt E i md k s2 = (Some r, s')) \<or>
   (retries E i md (n + left) s s' \<and> r = Returned (Some (TooManyConflicts maxRetries)))"
proof (induction left arbitrary: n s1)
  case (Suc left)
  obtain a s2 where at: "update_attempt E i md n s1 = (a, s2)" by fastforce
  show ?case
  proof (cases a)
    case None
    with Suc.prems at have "update_loop E i md left (Suc n) s2 = (r, s')"
      and "retries E i md (Suc n) s s2"
      by (auto intro: retries.again)
    from Suc.IH [OF this] show ?thesis by (auto simp: less_Suc_eq_le Suc_le_eq)
  next
    case (Some r')
    with Suc.prems at show ?thesis by auto
  qed
qed simp

section \<open>Worlds for the witnesses\<close>

text \<open>The Secret that holds a tree encrypted for the identity \<open>k\<close>.\<close>

definition sealed :: "(string, VaultNode) gomap \<Rightarrow> put_or_delete" where
  "sealed ns = Some (Some [(''vault.enc'', ''k'' @ newline # marshal_tree \<lparr>Nodes = Some ns\<rparr>)])"

definition secret_at :: "string \<Rightarrow> string \<Rightarrow> (string \<times> VaultNode)" where
  "secret_at p v = (p, \<lparr>Value = v, IsFolder = False\<rparr>)"

definition unlocked :: "string VaultManager" where
  "unlocked = \<lparr>identity = Some ''k'', isLocked = False\<rparr>"

text \<open>Another writer commits between the first read and the first write.\<close>

definition contended :: ref_world where
  "contended =
     \<lparr>writes = [(False, sealed [secret_at ''/b'' ''1''])],
      script = [[], [sealed [secret_at ''/b'' ''2'']]]\<rparr>"

section \<open>Properties\<close>

text \<open>
  (C2) \<^verbatim>\<open>UpdateVault\<close> is an atomic read-modify-write: when it reports success it has
  committed exactly once, the committed Secret decrypts under the manager's identity to
  the tree \<open>t'\<close>, and \<open>t'\<close> is the modifier applied to the tree stored immediately before
  that commit, whatever other writers committed while it ran. No update is lost.
\<close>

theorem UpdateVault_atomic:
  assumes "vault_service E hist" and "UpdateVault E md m s = (Returned None, s')"
  shows "\<exists>i. identity m = Some i \<and> \<not> isLocked m \<and> commits_update E hist i md s s'"
proof -
  show ?thesis
    using assms(2) vault_service.loop_succeeds [OF assms(1)]
    by (auto simp: UpdateVault_def split: bool.splits option.splits)
qed

theorem UpdateVault_atomic_witness:
  "\<exists>s'. UpdateVault ref_env (updateNode ''/a'' False ''x'') unlocked contended = (Returned None, s') \<and>
     commits_update ref_env ref_hist ''k'' (updateNode ''/a'' False ''x'') contended s'"
proof -
  have "fst (UpdateVault ref_env (updateNode ''/a'' False ''x'') unlocked contended) = Returned None"
    by code_simp
  then obtain s' where s': "UpdateVault ref_env (updateNode ''/a'' False ''x'') unlocked contended = (Returned None, s')"
    by (metis prod.collapse)
  from UpdateVault_atomic [OF ref.vault_service_axioms s'] s' show ?thesis
    by (auto simp: unlocked_def)
qed

text \<open>
  (C13) An \<^verbatim>\<open>UpdateVault\<close> that reports an error, or panics, has committed nothing: only
  other writers changed the Secret. The one exception is an unclassified error of the API
  server, where the server itself leaves open whether the write took place.
\<close>

theorem UpdateVault_error_commits_nothing:
  assumes "vault_service E hist" and "UpdateVault E md m s = (r, s')"
    and "r \<noteq> Returned None" and "\<And>msg. r \<noteq> Returned (Some (K8sFailed (ServerError msg)))"
  shows "moved (hist s) (hist s')"
  using assms(2) vault_service.loop_fails [OF assms(1) _ assms(3,4)]
  by (auto simp: UpdateVault_def split: bool.splits option.splits)

theorem UpdateVault_error_commits_nothing_witness:
  "\<exists>s'. UpdateVault ref_env (updateNode ''/b'' True []) unlocked contended =
      (Returned (Some (ModifierFailed ''conflict: path /b already exists as a secret'')), s') \<and>
     moved (ref_hist contended) (ref_hist s')"
proof -
  have "fst (UpdateVault ref_env (updateNode ''/b'' True []) unlocked contended) =
      Returned (Some (ModifierFailed ''conflict: path /b already exists as a secret''))"
    by code_simp
  then obtain s' where s': "UpdateVault ref_env (updateNode ''/b'' True []) unlocked contended =
      (Returned (Some (ModifierFailed ''conflict: path /b already exists as a secret'')), s')"
    by (metis prod.collapse)
  have "moved (ref_hist contended) (ref_hist s')"
    by (rule UpdateVault_error_commits_nothing [OF ref.vault_service_axioms s'])
       (simp_all only: call_result.inject call_result.distinct option.inject option.distinct
          vault_error.distinct not_False_eq_True)
  with s' show ?thesis by blast
qed

lemma last_attempt_absent:
  "update_attempt E i md (maxRetries - 1) s = (None, s') \<Longrightarrow> fst (k8s_get E s) = Inl NotFound"
  by (auto simp: update_attempt_def maxRetries_def
      split: sum.splits prod.splits k8s_error.splits option.splits if_splits)


text \<open>Five other writers, one before each of our updates.\<close>

definition storm :: ref_world where
  "storm =
     \<lparr>writes = [(False, sealed [])],
      script = concat (replicate 5 [[], [sealed [secret_at ''/b'' ''2'']]])\<rparr>"


text \<open>
  \<^verbatim>\<open>UpdateVault\<close> assigns into \<^verbatim>\<open>sec.Data\<close> without the nil check that \<^verbatim>\<open>EncryptAndSave\<close>
  has: on a Secret without entries (for instance one created empty for a fresh
  installation) every accepted change panics, while saving the same tree succeeds.
\<close>

lemma UpdateVault_panics_on_empty_Secret:
  assumes "identity m = Some i" "\<not> isLocked m"
    and "k8s_get E s = (Inr sec, s1)" "sec_data sec = None"
    and "md empty_tree = Inr t" and "encryptTree E t i s1 = (Inr ct, s2)"
  shows "UpdateVault E md m s = (Panicked, s2)"
proof -
  have "update_attempt E i md 0 s = (Some Panicked, s2)"
    using assms by (simp add: update_attempt_def stored_tree_def vault_enc_def)
  then show ?thesis
    using assms(1,2) by (simp add: UpdateVault_def maxRetries_def eval_nat_numeral)
qed

definition empty_secret :: ref_world where
  "empty_secret = \<lparr>writes = [(False, Some None)], script = []\<rparr>"

text \<open>
  (C22) \<^verbatim>\<open>LoadAndDecrypt\<close> returns a snapshot: a tree it returns is the tree of the Secret
  that was current when the call finished, decrypted under the manager's identity, with
  its keys normalised; the call itself writes nothing. A missing Secret reads as the empty
  tree, and never a Secret that fails to decrypt or to parse.
\<close>

theorem LoadAndDecrypt_snapshot:
  assumes "vault_service E hist" and "LoadAndDecrypt E m s = (r, s')"
  shows "moved (hist s) (hist s') \<and>
    (\<forall>t. r = Inr t \<longrightarrow>
       (\<exists>i u. identity m = Some i \<and> \<not> isLocked m \<and>
          base_tree E i (current (hist s')) = Inr u \<and> t = normalizeKeys u))"
proof (intro conjI allI impI)
  note world = vault_service.axioms(1) [OF assms(1)]
  show "moved (hist s) (hist s')"
    using assms(2) by (auto simp: LoadAndDecrypt_def dest: optimistic_store.get_moves [OF world]
        split: bool.splits sum.splits prod.splits k8s_error.splits option.splits if_splits)
  fix t assume t: "r = Inr t"
  then obtain i where i: "identity m = Some i" "\<not> isLocked m"
    using assms(2) by (auto simp: LoadAndDecrypt_def split: bool.splits option.splits)
  obtain g s1 where g: "k8s_get E s = (g, s1)" by fastforce
  show "\<exists>i u. identity m = Some i \<and> \<not> isLocked m \<and>
      base_tree E i (current (hist s')) = Inr u \<and> t = normalizeKeys u"
  proof (cases g)
    case (Inl e)
    with assms(2) t i g have "e = NotFound" "t = empty_tree" "s1 = s'"
      by (auto simp: LoadAndDecrypt_def split: k8s_error.splits)
    moreover have "k8s_get E s = (Inl e, s1)"
      using g Inl by simp
    ultimately have "current (hist s') = None"
      using optimistic_store.get_absent [OF world] by simp
    with i \<open>t = empty_tree\<close> show ?thesis by (simp add: base_tree_def)
  next
    case (Inr sec)
    with assms(2) t i g have "s1 = s'" and st: "\<exists>u. stored_tree E i sec = Inr u \<and> t = normalizeKeys u"
      by (auto simp: LoadAndDecrypt_def stored_tree_def split: option.splits if_splits sum.splits)
    then have "current (hist s') = Some sec"
      using optimistic_store.get_current [OF world] g Inr by simp
    with i st show ?thesis by (simp add: base_tree_def)
  qed
qed


text \<open>
  A document that other tools may have written: a key without slash, a repeated key, a
  field in another case, an unknown one, and a byte that is no UTF-8.
\<close>

definition foreign_doc :: bytes where
  "foreign_doc =
     (let str = (\<lambda>s. quote # s @ [quote])
      in ''{'' @ str ''version'' @ '': 2, '' @ str ''NODES'' @ '': {'' @
         str ''a'' @ '': {'' @ str ''value'' @ '': '' @ str ''1'' @ ''}, '' @
         str ''a'' @ '': {'' @ str ''Value'' @ '': '' @ str [CHR 0xFF] @ ''} } }'')"

definition foreign_world :: ref_world where
  "foreign_world = \<lparr>writes = [(False, Some (Some [(''vault.enc'', ''k'' @ newline # foreign_doc)]))], script = []\<rparr>"


text \<open>Two updates of one manager, then a load.\<close>

definition busy :: ref_world where
  "busy = \<lparr>writes = [(False, sealed [secret_at ''/b'' ''1''])],
           script = [[sealed [secret_at ''c'' ''3'']]]\<rparr>"

theorem LoadAndDecrypt_snapshot_witness:
  "\<exists>s' u. LoadAndDecrypt ref_env unlocked busy = (Inr (normalizeKeys u), s') \<and>
     base_tree ref_env ''k'' (current (ref_hist s')) = Inr u"
proof -
  have "fst (LoadAndDecrypt ref_env unlocked busy) = Inr \<lparr>Nodes = Some [secret_at ''/c'' ''3'']\<rparr>"
    by code_simp
  then obtain t s' where s': "LoadAndDecrypt ref_env unlocked busy = (Inr t, s')"
    by (metis prod.collapse)
  from LoadAndDecrypt_snapshot [OF ref.vault_service_axioms s'] s' show ?thesis
    by (auto simp: unlocked_def)
qed

text \<open>
  (C14) A successful \<^verbatim>\<open>Unlock\<close> starts from a locked manager, installs the first X25519
  identity of the given key, and that identity opens the vault that was stored when it
  was checked. An \<^verbatim>\<open>Unlock\<close> that reports an error leaves the manager as it was, so the key
  of a running vault is never replaced.
\<close>

theorem Unlock_installs_verified_key:
  assumes "vault_service E hist" and "Unlock E key m s = (err, m', s')"
  shows "(case err of
            Some e \<Rightarrow> m' = m
          | None \<Rightarrow> isLocked m \<and> (\<exists>i. parse_master_key E key = Inr i \<and>
              m' = m\<lparr>identity := Some i, isLocked := False\<rparr> \<and>
              (\<forall>sec ct. current (hist s') = Some sec \<longrightarrow> vault_enc sec = Some ct \<longrightarrow> ct \<noteq> [] \<longrightarrow>
                 (\<exists>reader. age_decrypt E i ct = Inr reader))))"
proof (cases err)
  case None
  with assms(2) obtain i where i: "isLocked m" "parse_master_key E key = Inr i"
    "verifyIdentity E i s = (None, s')" "m' = m\<lparr>identity := Some i, isLocked := False\<rparr>"
    using Unlock_ok by metis
  have "\<forall>sec ct. current (hist s') = Some sec \<longrightarrow> vault_enc sec = Some ct \<longrightarrow> ct \<noteq> [] \<longrightarrow>
      (\<exists>reader. age_decrypt E i ct = Inr reader)"
    using vault_service.verified_key(2) [OF assms(1) i(3)] by blast
  with i show ?thesis unfolding None by simp
next
  case (Some e)
  with assms(2) show ?thesis by (simp add: Unlock_error)
qed

theorem Unlock_installs_verified_key_witness:
  "(\<exists>s'. Unlock ref_env ''k'' \<lparr>identity = None, isLocked = True\<rparr> busy =
      (None, unlocked, s')) \<and>
   (\<exists>e s'. Unlock ref_env ''other'' \<lparr>identity = None, isLocked = True\<rparr> busy =
      (Some e, \<lparr>identity = None, isLocked = True\<rparr>, s'))"
proof
  let ?m = "\<lparr>identity = None, isLocked = True\<rparr>"
  have "fst (Unlock ref_env ''k'' ?m busy) = None"
    and p: "parse_master_key ref_env ''k'' = Inr ''k''"
    by code_simp+
  then obtain m' s' where s': "Unlock ref_env ''k'' ?m busy = (None, m', s')"
    by (metis prod.collapse)
  from Unlock_installs_verified_key [OF ref.vault_service_axioms s'] s' p
  show "\<exists>s'. Unlock ref_env ''k'' ?m busy = (None, unlocked, s')"
    by (auto simp: unlocked_def)
  have "fst (Unlock ref_env ''other'' ?m busy) \<noteq> None"
    by code_simp
  then obtain e m'' s'' where s'': "Unlock ref_env ''other'' ?m busy = (Some e, m'', s'')"
    by (metis prod.collapse not_None_eq)
  from Unlock_installs_verified_key [OF ref.vault_service_axioms s''] s''
  show "\<exists>e s'. Unlock ref_env ''other'' ?m busy = (Some e, ?m, s')"
    by auto
qed

text \<open>
  (C24) Round trip: the next load after an error-free save returns the saved tree (up to the
  order of the map), unless another writer commits in between or the API server fails.
  The keys have to start with a slash and be valid UTF-8. Values need not be: their
  invalid bytes come back, without any error, as replacement characters, so exactly the
  values that are valid UTF-8 are preserved.
\<close>

theorem save_load_roundtrip:
  assumes "vault_service E hist"
    and "EncryptAndSave E t m s = (None, s1)" and "LoadAndDecrypt E m s1 = (r, s2)"
    and "hist s2 = hist s1" and "keys_text t" "wf_map (nodes_of t)" "keys_rooted t"
  shows "(\<exists>u. r = Inr u \<and> same_tree u (repair_tree t) \<and> (values_text t \<longrightarrow> same_tree u t)) \<or>
    (\<exists>e. r = Inl (K8sFailed e))"
  using vault_service.save_then_load [OF assms] repair_tree_id [of t] by (auto simp: same_tree_def)

text \<open>The witness saves one text and one byte that is no UTF-8.\<close>

definition binary_tree :: VaultTree where
  "binary_tree = \<lparr>Nodes = Some [secret_at ''/a'' ''x'', secret_at ''/b'' [CHR 0xFF]]\<rparr>"

theorem save_load_roundtrip_witness:
  "\<exists>s1 s2 u. EncryptAndSave ref_env binary_tree unlocked empty_secret = (None, s1) \<and>
     LoadAndDecrypt ref_env unlocked s1 = (Inr u, s2) \<and>
     map_of (nodes_of u) ''/a'' = Some \<lparr>Value = ''x'', IsFolder = False\<rparr> \<and>
     map_of (nodes_of u) ''/b'' = Some \<lparr>Value = [CHR 0xEF, CHR 0xBF, CHR 0xBD], IsFolder = False\<rparr>"
proof -
  let ?s1 = "snd (EncryptAndSave ref_env binary_tree unlocked empty_secret)"
  let ?s2 = "snd (LoadAndDecrypt ref_env unlocked ?s1)"
  have "fst (EncryptAndSave ref_env binary_tree unlocked empty_secret) = None"
    and same: "ref_hist ?s2 = ref_hist ?s1"
    and r: "\<not> isl (fst (LoadAndDecrypt ref_env unlocked ?s1))"
    and keys: "list_all (\<lambda>(k, n). rooted k \<and> valid_utf8 k) (nodes_of binary_tree)"
    and wf: "wf_map (nodes_of binary_tree)"
    and a: "map_of (nodes_of (repair_tree binary_tree)) ''/a'' = Some \<lparr>Value = ''x'', IsFolder = False\<rparr>"
    and b: "map_of (nodes_of (repair_tree binary_tree)) ''/b'' =
      Some \<lparr>Value = [CHR 0xEF, CHR 0xBF, CHR 0xBD], IsFolder = False\<rparr>"
    by code_simp+
  then have save: "EncryptAndSave ref_env binary_tree unlocked empty_secret = (None, ?s1)"
    by (metis prod.collapse)
  from r obtain u where load: "LoadAndDecrypt ref_env unlocked ?s1 = (Inr u, ?s2)"
    by (cases "LoadAndDecrypt ref_env unlocked ?s1"; cases "fst (LoadAndDecrypt ref_env unlocked ?s1)") auto
  have t: "keys_text binary_tree" "keys_rooted binary_tree"
    using keys unfolding keys_text_def keys_rooted_def list_all_iff by auto
  from save_load_roundtrip [OF ref.vault_service_axioms save load same t(1) wf t(2)]
  have "map_of (nodes_of u) = map_of (nodes_of (repair_tree binary_tree))"
    by (simp add: same_tree_def)
  with save load a b show ?thesis by metis
qed

text \<open>
  (C6) Concurrent unlocking: in every reachable state of any number of interleaved
  \<^verbatim>\<open>Unlock\<close> calls, with other writers changing the vault at will, exactly one call has
  succeeded if the vault is unlocked and none if it is locked, the installed identity has
  passed a verification, and no further step changes the manager.
\<close>

theorem unlock_race_safe:
  assumes "race_reachable E r"
  shows "(if isLocked (manager r) then identity (manager r) = None \<and> winners (calls r) = {}
          else (\<exists>i. identity (manager r) = Some i \<and> key_verified E i) \<and> (\<exists>t. winners (calls r) = {t})) \<and>
    (\<forall>r'. unlock_step E r r' \<longrightarrow> \<not> isLocked (manager r) \<longrightarrow> manager r' = manager r)"
  using race_reachable_inv [OF assms] unlock_step_unlocked [of E r]
  by (auto simp: race_inv_def vm_ok_def)

text \<open>Two whole calls, one after the other, as a run of the interleaved system.\<close>

theorem unlock_race_safe_witness:
  "\<exists>r. race_reachable ref_env r \<and> \<not> isLocked (manager r) \<and> winners (calls r) = {0} \<and>
     calls r 1 = Finished (Some ErrVaultAlreadyUnlocked)"
proof -
  let ?r0 = "race_start busy :: (ref_world, string) race"
  let ?m = "\<lparr>identity = None, isLocked = True\<rparr>"
  let ?s = "snd (snd (Unlock ref_env ''k'' ?m busy))"
  have "Unlock ref_env ''k'' ?m busy = (None, unlocked, ?s)"
  proof -
    have "fst (Unlock ref_env ''k'' ?m busy) = None" "fst (snd (Unlock ref_env ''k'' ?m busy)) = unlocked"
      by code_simp+
    then show ?thesis by (metis prod.collapse)
  qed
  then have "unlock_run ref_env ?r0 (?r0\<lparr>calls := (calls ?r0)(0 := Finished None), manager := unlocked, world := ?s\<rparr>)"
    by (rule Unlock_is_run) (simp_all add: race_start_def)
  then have r1: "race_reachable ref_env (?r0\<lparr>calls := (calls ?r0)(0 := Finished None), manager := unlocked, world := ?s\<rparr>)"
    (is "race_reachable _ ?r1") by (rule unlock_run_reachable) (rule race_reachable.start)
  let ?r2 = "?r1\<lparr>calls := (calls ?r1)(1 := Finished (Some ErrVaultAlreadyUnlocked))\<rparr>"
  have "unlock_step ref_env ?r1 ?r2"
    by (rule unlock_step.refuse) (simp_all add: race_start_def unlocked_def IsLocked_def)
  with r1 have r2: "race_reachable ref_env ?r2" by (rule race_reachable.step)
  have un: "\<not> isLocked (manager ?r2)" and c: "calls ?r2 1 = Finished (Some ErrVaultAlreadyUnlocked)"
    and z: "0 \<in> winners (calls ?r2)"
    by (simp_all add: unlocked_def winners_def)
  from unlock_race_safe [OF r2] un obtain t where "winners (calls ?r2) = {t}" by auto
  with z have "winners (calls ?r2) = {0}" by auto
  with r2 un c show ?thesis by blast
qed

text \<open>
  \<^verbatim>\<open>UpdateVault\<close> does not normalise the keys of the tree it hands to its modifier,
  while every load does: deleting, under the only name the interface shows, an entry that
  is stored without its leading slash changes nothing, and the entry is loaded again.
\<close>

lemma delete_of_unrooted_key_ineffective:
  assumes "(k, n) \<in> set (nodes_of t)" and "\<not> rooted k"
  shows "\<exists>t'. deleteNode (normalizePath k) t = Inr t' \<and>
    map_of (nodes_of (normalizeKeys t')) (normalizePath k) \<noteq> None"
proof -
  obtain t' where t': "deleteNode (normalizePath k) t = Inr t'"
    by (simp add: deleteNode_def)
  have "k \<noteq> normalizePath k"
    using assms(2) rooted_normalizePath [of k] by metis
  then have "(k, n) \<in> set (nodes_of t')"
    using assms(1) nodes_of_deleteNode [OF t'] by (auto simp: AList.delete_eq)
  with t' show ?thesis using normalizeKeys_dom by blast
qed

definition unrooted_world :: ref_world where
  "unrooted_world = \<lparr>writes = [(False, sealed [secret_at ''db'' ''x''])], script = []\<rparr>"

end
