(* ===== verification/Admin_Properties.thy ===== *)
theory Admin_Properties
  imports Admin_UI Vault_Properties
begin

text \<open>
  The properties of the web interface as a whole: what a request can change, and what it
  can see. The contract joins that of the vault's world with the assumption that token
  validation does not write the Secret.
\<close>

section \<open>Requests that write\<close>

text \<open>The checks that the two writing handlers make before they call \<^verbatim>\<open>UpdateVault\<close>.\<close>

definition update_path :: "http_request \<Rightarrow> string" where
  "update_path r = normalizePath (trimSpace (rq_form r ''path''))"

definition delete_path :: "http_request \<Rightarrow> string" where
  "delete_path r = normalizePath (rq_form r ''path'')"

definition update_checked :: "UserPermissions option \<Rightarrow> http_request \<Rightarrow> bool" where
  "update_checked up r \<longleftrightarrow>
     rq_path r = ''/update'' \<and> rq_method r = ''POST'' \<and> validateVaultPath (update_path r) = None \<and>
     writable up (update_path r)"

definition delete_checked :: "UserPermissions option \<Rightarrow> http_request \<Rightarrow> bool" where
  "delete_checked up r \<longleftrightarrow>
     rq_path r = ''/delete'' \<and> rq_method r = ''POST'' \<and> writable up (delete_path r)"

text \<open>The change a request asks for.\<close>

definition requested :: "http_request \<Rightarrow> VaultTree \<Rightarrow> string + VaultTree" where
  "requested r =
     (if rq_path r = ''/update''
      then updateNode (update_path r) (rq_form r ''is_folder'' = ''true'') (rq_form r ''value'')
      else deleteNode (delete_path r))"

lemma requested_keeps:
  assumes "update_checked up r \<or> delete_checked up r" "requested r t = Inr t'" "tree_ok t"
  shows "tree_ok t'"
proof (cases "rq_path r = ''/update''")
  case True
  then have "validateVaultPath (update_path r) = None"
    using assms(1) by (auto simp: update_checked_def delete_checked_def)
  moreover have "updateNode (update_path r) (rq_form r ''is_folder'' = ''true'') (rq_form r ''value'') t = Inr t'"
    using True assms(2) by (simp add: requested_def)
  ultimately show ?thesis
    unfolding update_path_def by (rule updateNode_keeps [OF assms(3)])
next
  case False
  then have "deleteNode (delete_path r) t = Inr t'"
    using assms(2) by (simp add: requested_def)
  then show ?thesis by (rule deleteNode_keeps [OF assms(3)])
qed

lemma update_handler_cases:
  assumes "update_handler U up r m s = (resp, m', s')"
  shows "(m' = m \<and> s' = s \<and> (\<exists>c e. resp = HttpError c e)) \<or>
    (rq_method r = ''POST'' \<and> validateVaultPath (update_path r) = None \<and> writable up (update_path r) \<and> m' = m \<and>
     (\<exists>res. UpdateVault (ue_vault U) (updateNode (update_path r) (rq_form r ''is_folder'' = ''true'') (rq_form r ''value'')) m s =
         (res, s') \<and> resp = write_response U ''Failed to save: '' ''/'' res))"
  using assms by (auto simp: update_handler_def update_path_def Let_def split: if_splits option.splits prod.splits)

lemma delete_handler_cases:
  assumes "delete_handler U up r m s = (resp, m', s')"
  shows "(m' = m \<and> s' = s \<and> (\<exists>c e. resp = HttpError c e)) \<or>
    (rq_method r = ''POST'' \<and> writable up (delete_path r) \<and> m' = m \<and>
     (\<exists>res. UpdateVault (ue_vault U) (deleteNode (delete_path r)) m s = (res, s') \<and>
        resp = write_response U ''Failed to delete: '' (''/?path='' @ parent_of (delete_path r)) res))"
  using assms by (auto simp: delete_handler_def delete_path_def Let_def split: if_splits prod.splits)

lemma write_response_Redirect: "write_response U w to res = Redirect c x \<longleftrightarrow> res = Returned None \<and> c = 303 \<and> x = to"
  by (auto simp: write_response_def split: call_result.splits option.splits)

section \<open>The contract\<close>

locale web_service = vault_service "ue_vault U" hist
  for U :: "('s, 'id) ui_env" and hist :: "'s \<Rightarrow> commit list" +
  fixes L :: "'s auth_lib"
  assumes parse_moves: "al_parse L (run_keyfunc (al_net L)) methods tok (f, s) = (j, f', s') \<Longrightarrow>
      moved (hist s) (hist s')"
    and userinfo_moves: "al_userinfo L p tok s = (i, s') \<Longrightarrow> moved (hist s) (hist s')"
begin

lemma jwt_moves: "ValidateJWT L pm tok s = (j, pm', s') \<Longrightarrow> moved (hist s) (hist s')"
  by (auto simp: ValidateJWT_def Let_def dest: parse_moves
      split: option.splits prod.splits sum.splits if_splits)

lemma access_token_moves: "ValidateAccessToken L pm tok s = (a, pm', s') \<Longrightarrow> moved (hist s) (hist s')"
  by (auto simp: ValidateAccessToken_def Let_def dest: userinfo_moves
      split: option.splits prod.splits sum.splits)

lemma bearer_moves: "bearer_user L pm tok s = (b, pm', s') \<Longrightarrow> moved (hist s) (hist s')"
  by (auto simp: bearer_user_def Let_def dest!: jwt_moves access_token_moves intro: moved_trans
      split: prod.splits sum.splits if_splits)

lemma withAuth_moves: "withAuth L ah dev pmo r s = (a, pmo', s') \<Longrightarrow> moved (hist s) (hist s')"
  by (auto simp: withAuth_def Let_def dest: bearer_moves
      split: prod.splits option.splits if_splits)

lemma load_moves: "LoadAndDecrypt (ue_vault U) m s = (t, s') \<Longrightarrow> moved (hist s) (hist s')"
  by (auto simp: LoadAndDecrypt_def dest: get_moves
      split: bool.splits sum.splits prod.splits k8s_error.splits option.splits if_splits)

lemma unlock_moves: "Unlock (ue_vault U) key m s = (e, m', s') \<Longrightarrow> moved (hist s) (hist s')"
  by (auto simp: Unlock_def unlock_commit_def verifyIdentity_def dest: get_moves
      split: sum.splits prod.splits k8s_error.splits option.splits if_splits)

lemma other_moves:
  shows "root_handler U up r m s = (resp, m', s') \<Longrightarrow> moved (hist s) (hist s')"
    and "entry_handler U up r m s = (resp, m', s') \<Longrightarrow> moved (hist s) (hist s')"
    and "unlock_handler U up r m s = (resp, m', s') \<Longrightarrow> moved (hist s) (hist s')"
    and "export_handler U up r m s = (resp, m', s') \<Longrightarrow> moved (hist s) (hist s')"
  by (auto simp: root_handler_def entry_handler_def unlock_handler_def export_handler_def Let_def
      dest: load_moves unlock_moves get_moves
      split: if_splits sum.splits prod.splits option.splits vault_error.splits)

text \<open>What a routed request does to the Secret.\<close>

lemma mux_effect:
  assumes "mux U up r m s = (resp, m', s')"
  shows "moved (hist s) (hist s') \<or>
    ((update_checked up r \<or> delete_checked up r) \<and> m' = m \<and>
     (\<exists>res. UpdateVault (ue_vault U) (requested r) m s = (res, s')))"
proof -
  consider "rq_path r = ''/update''" | "rq_path r = ''/delete''" "rq_path r \<noteq> ''/update''"
    | "rq_path r \<noteq> ''/update''" "rq_path r \<noteq> ''/delete''" by blast
  then show ?thesis
  proof cases
    case 1
    then have "update_handler U up r m s = (resp, m', s')"
      using assms by (simp add: mux_def)
    from update_handler_cases [OF this] 1 show ?thesis
      by (auto simp: update_checked_def requested_def)
  next
    case 2
    then have "delete_handler U up r m s = (resp, m', s')"
      using assms by (simp add: mux_def)
    from delete_handler_cases [OF this] 2 show ?thesis
      by (auto simp: delete_checked_def requested_def)
  next
    case 3
    then show ?thesis
      using assms other_moves by (auto simp: mux_def split: if_splits)
  qed
qed

lemma mux_once:
  assumes "mux U up r m s = (resp, m', s')"
  shows "at_most_one (hist s) (hist s')"
  using mux_effect [OF assms] UpdateVault_once moved_at_most_one by blast

text \<open>A redirect from a writing route is a committed change.\<close>

lemma mux_redirect:
  assumes "mux U up r m s = (Redirect c to, m', s')"
    and "rq_path r = ''/update'' \<or> rq_path r = ''/delete''"
  shows "\<exists>i. identity m = Some i \<and> \<not> isLocked m \<and> commits_update (ue_vault U) hist i (requested r) s s'"
proof -
  have "UpdateVault (ue_vault U) (requested r) m s = (Returned None, s')"
  proof (cases "rq_path r = ''/update''")
    case True
    then have "update_handler U up r m s = (Redirect c to, m', s')"
      using assms(1) by (simp add: mux_def)
    from update_handler_cases [OF this] True show ?thesis
      by (auto simp: requested_def write_response_Redirect eq_commute [of "Redirect c to"])
  next
    case False
    then have "delete_handler U up r m s = (Redirect c to, m', s')"
      using assms by (simp add: mux_def)
    from delete_handler_cases [OF this] False show ?thesis
      by (auto simp: requested_def write_response_Redirect eq_commute [of "Redirect c to"])
  qed
  then show ?thesis
    by (auto simp: UpdateVault_def dest: loop_succeeds split: bool.splits option.splits)
qed

end

section \<open>A reference site\<close>

text \<open>
  The reference worlds side by side: the vault's world and the network of the token
  libraries. The combination meets the contract.
\<close>

definition beside :: "('s \<Rightarrow> 'r \<times> 's) \<Rightarrow> 's \<times> 't \<Rightarrow> 'r \<times> 's \<times> 't" where
  "beside f st = (case f (fst st) of (r, s') \<Rightarrow> (r, s', snd st))"

definition site_vault :: "(ref_world \<times> ref_net, string) vault_env" where
  "site_vault =
     \<lparr>k8s_get = beside ref_get, k8s_create = (\<lambda>d. beside (ref_create d)),
      k8s_update = (\<lambda>sec. beside (ref_update sec)), sleep_ms = (\<lambda>n s. s), age_parse = ref_parse,
      age_recipient = (\<lambda>i. i), age_encrypt = (\<lambda>rcp pt. beside (ref_encrypt rcp pt)),
      age_decrypt = ref_decrypt\<rparr>"

definition site_ui :: "(ref_world \<times> ref_net, string) ui_env" where
  "site_ui = \<lparr>ue_vault = site_vault, ue_text = (\<lambda>f. ''failed'')\<rparr>"

definition site_hist :: "ref_world \<times> ref_net \<Rightarrow> commit list" where
  "site_hist st = ref_hist (fst st)"

text \<open>A site whose users come from the proxy headers: the token libraries refuse everything.\<close>

definition site_lib :: "(ref_world \<times> ref_net) auth_lib" where
  "site_lib =
     \<lparr>al_net = \<lparr>jn_clock = (\<lambda>st. rn_clock (snd st)), jn_get = (\<lambda>url st. (Inl ''connection refused'', st))\<rparr>,
      al_parse = (\<lambda>kf ms tok fs. (Inl ''token is malformed'', fs)),
      al_userinfo = (\<lambda>p tok st. (Inl ''401 Unauthorized'', st)),
      al_sha256 = (\<lambda>s. s)\<rparr>"

lemma beside_eq: "beside f st = (r, st') \<longleftrightarrow> f (fst st) = (r, fst st') \<and> snd st' = snd st"
  by (cases st'; cases "f (fst st)") (auto simp: beside_def)

lemmas ref_contract = ref.get_moves ref.get_current ref.get_absent ref.create_commits ref.create_rejected
  ref.update_commits ref.update_rejected ref.encrypt_moves ref.versions ref.decrypt_encrypt

lemma site_fields:
  "ref_get = k8s_get ref_env" "ref_create = k8s_create ref_env" "ref_update = k8s_update ref_env"
  "ref_encrypt = age_encrypt ref_env" "ref_decrypt = age_decrypt ref_env"
  by (simp_all add: ref_env_def)

lemma site_recipient: "age_recipient ref_env i = i"
  by (simp add: ref_env_def)

interpretation site: web_service site_ui site_hist site_lib
proof (unfold_locales, goal_cases)
  case (4 d s u s')
  then show ?case
    using ref.create_commits [of d "fst s" u "fst s'"]
    by (simp add: site_ui_def site_vault_def site_hist_def beside_eq site_fields)
next
  case (5 d s e s')
  then show ?case
    using ref.create_rejected [of d "fst s" e "fst s'"]
    by (simp add: site_ui_def site_vault_def site_hist_def beside_eq site_fields)
next
  case (6 sec s u s')
  then show ?case
    using ref.update_commits [of sec "fst s" u "fst s'"]
    by (simp add: site_ui_def site_vault_def site_hist_def beside_eq site_fields)
next
  case (7 sec s e s')
  then show ?case
    using ref.update_rejected [of sec "fst s" e "fst s'"]
    by (simp add: site_ui_def site_vault_def site_hist_def beside_eq site_fields)
next
  case (13 i pt s ct s')
  then show ?case
    using ref.decrypt_encrypt [of i pt "fst s" ct "fst s'"]
    by (simp add: site_ui_def site_vault_def beside_eq site_fields site_recipient)
qed (auto simp: site_ui_def site_vault_def site_hist_def site_lib_def beside_eq site_fields
      dest: ref.get_moves ref.get_current ref.get_absent ref.encrypt_moves ref.create_unknown ref.update_unknown
      intro: ref.versions)

section \<open>Whole requests\<close>

lemma admin_request_cases:
  assumes "admin_request L U oh tr ah dev r pmo m s = (rep, pmo', m', s')"
  shows "reply_headers rep = frame_headers \<and>
    ((\<exists>c e. reply_body rep = HttpError c e) \<and> m' = m \<and>
       (s' = s \<or> (\<exists>a. withAuth L ah dev pmo r s = (a, pmo', s'))) \<or>
     cross_origin_ok oh tr r \<and> (\<exists>up s1. withAuth L ah dev pmo r s = (Forward up, pmo', s1) \<and>
       mux U up r m s1 = (reply_body rep, m', s')))"
  using assms
  by (auto simp: admin_request_def withFrameDenial_def split: if_splits prod.splits auth_result.splits)

lemma withAuth_anonymous:
  "withAuth L ah dev pmo r s = (Forward None, pmo', s') \<Longrightarrow> pmo = None \<and> dev"
  by (auto simp: withAuth_def Let_def split: option.splits if_splits prod.splits)

definition post :: "string \<Rightarrow> (string \<times> string) list \<Rightarrow> string \<Rightarrow> http_request" where
  "post p form u =
     (proxied u [])\<lparr>rq_method := ''POST'', rq_path := p,
       rq_form := (\<lambda>k. case map_of form k of None \<Rightarrow> [] | Some v \<Rightarrow> v)\<rparr>"

definition site_start :: "ref_world \<times> ref_net" where
  "site_start = (\<lparr>writes = [(False, sealed [secret_at ''/app/a'' ''1''])], script = []\<rparr>,
     \<lparr>rn_clock = 0, rn_serves = None\<rparr>)"

definition site_request ::
    "http_request \<Rightarrow> string VaultManager \<Rightarrow>
     http_reply \<times> PermissionManager option \<times> string VaultManager \<times> ref_world \<times> ref_net" where
  "site_request r m =
     admin_request site_lib site_ui (\<lambda>x. None) [] proxy_headers False r (Some plain_manager) m site_start"

section \<open>Properties\<close>

lemma write_by_permission:
  assumes "web_service U hist L"
    and "admin_request L U oh tr ah dev r pmo m s = (rep, pmo', m', s')"
    and "\<not> moved (hist s) (hist s')"
  shows "rq_method r = ''POST'' \<and> cross_origin_ok oh tr r \<and>
    (\<exists>up s1. withAuth L ah dev pmo r s = (Forward up, pmo', s1) \<and>
       (update_checked up r \<or> delete_checked up r))"
proof -
  note auth = web_service.withAuth_moves [OF assms(1)]
  from admin_request_cases [OF assms(2)] obtain up s1 where
    a: "withAuth L ah dev pmo r s = (Forward up, pmo', s1)" and x: "mux U up r m s1 = (reply_body rep, m', s')"
    and c: "cross_origin_ok oh tr r"
    using auth assms(3) by auto
  have "\<not> moved (hist s1) (hist s')"
    using auth [OF a] assms(3) by (blast intro: moved_trans)
  with web_service.mux_effect [OF assms(1) x] have "update_checked up r \<or> delete_checked up r" by blast
  with a c show ?thesis by (auto simp: update_checked_def delete_checked_def)
qed

lemma site_write:
  "(case site_request (post ''/update'' [(''path'', ''app/b''), (''value'', ''2'')] ''ann'') unlocked of
      (rep, pmo', m', s') \<Rightarrow> reply_body rep = Redirect 303 ''/'' \<and> length (site_hist s') = 2)"
  by code_simp

text \<open>
  (C11) A redirect from a writing route means that the change is stored: exactly one Secret was
  committed, holding the requested change of the tree stored immediately before, whatever
  other writers did meanwhile; and if that tree was well-formed, so is the new one.
\<close>

theorem admin_write_commits:
  assumes "web_service U hist L"
    and "admin_request L U oh tr ah dev r pmo m s = (rep, pmo', m', s')"
    and "reply_body rep = Redirect c to" "rq_path r = ''/update'' \<or> rq_path r = ''/delete''"
  shows "\<exists>i h new t t'. identity m = Some i \<and> moved (hist s) h \<and> hist s' = h @ [Ours new] \<and>
    base_tree (ue_vault U) i (current h) = Inr t \<and> requested r t = Inr t' \<and>
    holds_tree (ue_vault U) i new t' \<and> (tree_ok t \<longrightarrow> tree_ok t')"
proof -
  from admin_request_cases [OF assms(2)] assms(3) obtain up s1 where
    a: "withAuth L ah dev pmo r s = (Forward up, pmo', s1)" and x: "mux U up r m s1 = (Redirect c to, m', s')"
    by auto
  note auth = web_service.withAuth_moves [OF assms(1) a]
  from web_service.mux_redirect [OF assms(1) x assms(4)] obtain i h new t t' where
    i: "identity m = Some i" and h: "moved (hist s1) h" "hist s' = h @ [Ours new]"
    and t: "base_tree (ue_vault U) i (current h) = Inr t" "requested r t = Inr t'"
      "holds_tree (ue_vault U) i new t'"
    unfolding commits_update_def by blast
  have "ours (hist s') = Suc (ours (hist s1))"
    using moved_ours [OF h(1)] h(2) by simp
  then have "\<not> moved (hist s1) (hist s')"
    using moved_ours [of "hist s1" "hist s'"] by auto
  with web_service.mux_effect [OF assms(1) x] have "update_checked up r \<or> delete_checked up r" by blast
  then have "tree_ok t \<longrightarrow> tree_ok t'"
    using requested_keeps t(2) by blast
  with i h t auth show ?thesis by (blast intro: moved_trans)
qed

theorem admin_write_commits_witness:
  "\<exists>rep pmo' m' s' h new. site_request (post ''/update'' [(''path'', ''app/b''), (''value'', ''2'')] ''ann'') unlocked = (rep, pmo', m', s') \<and>
     site_hist s' = h @ [Ours new]"
proof -
  let ?r = "post ''/update'' [(''path'', ''app/b''), (''value'', ''2'')] ''ann''"
  obtain rep pmo' m' s' where q: "site_request ?r unlocked = (rep, pmo', m', s')"
    by (metis prod.exhaust)
  have r: "reply_body rep = Redirect 303 ''/''"
    using site_write unfolding q by simp
  have p: "rq_path ?r = ''/update'' \<or> rq_path ?r = ''/delete''"
    by (simp add: post_def)
  from admin_write_commits [OF site.web_service_axioms q [unfolded site_request_def] r p] q show ?thesis
    by blast
qed

lemma unlock_by_admin:
  assumes "admin_request L U oh tr ah dev r pmo m s = (rep, pmo', m', s')" and "m' \<noteq> m"
  shows "rq_path r = ''/unlock'' \<and> rq_method r = ''POST'' \<and> cross_origin_ok oh tr r \<and> isLocked m \<and>
    (\<exists>up s1. withAuth L ah dev pmo r s = (Forward up, pmo', s1) \<and>
       (case up of None \<Rightarrow> pmo = None \<and> dev | Some u \<Rightarrow> isAdmin u)) \<and>
    (\<exists>i. parse_master_key (ue_vault U) (rq_form r ''master_key'') = Inr i \<and>
       m' = m\<lparr>identity := Some i, isLocked := False\<rparr>)"
proof -
  from admin_request_cases [OF assms(1)] assms(2) obtain up s1 where
    a: "withAuth L ah dev pmo r s = (Forward up, pmo', s1)" and x: "mux U up r m s1 = (reply_body rep, m', s')"
    and c: "cross_origin_ok oh tr r"
    by auto
  from mux_manager [OF x assms(2)] have p: "rq_path r = ''/unlock''"
    and h: "unlock_handler U up r m s1 = (reply_body rep, m', s')" by auto
  obtain e s2 where u: "Unlock (ue_vault U) (rq_form r ''master_key'') m s1 = (e, m', s2)"
    and post: "rq_method r = ''POST''" and adm: "\<not> (case up of None \<Rightarrow> False | Some u \<Rightarrow> \<not> isAdmin u)"
    using h assms(2) by (auto simp: unlock_handler_def split: if_splits prod.splits option.splits vault_error.splits)
  have "e = None"
    using u assms(2) by (cases e) (auto dest: Unlock_error)
  with u obtain i where "isLocked m" "parse_master_key (ue_vault U) (rq_form r ''master_key'') = Inr i"
    "m' = m\<lparr>identity := Some i, isLocked := False\<rparr>"
    using Unlock_ok by metis
  moreover have "case up of None \<Rightarrow> pmo = None \<and> dev | Some u \<Rightarrow> isAdmin u"
    using adm a by (auto dest!: withAuth_anonymous split: option.splits)
  ultimately show ?thesis using p post c a by blast
qed

definition locked_manager :: "string VaultManager" where
  "locked_manager = \<lparr>identity = None, isLocked = True\<rparr>"

text \<open>
  (C16) The pages leak nothing: for two vaults whose trees are well-formed and have the same
  nodes of the same kinds where the user may read, every request that does not write,
  unlock or export gets the same response, so no page depends on the value of a secret or
  on the existence of a path the user may not read.
\<close>

theorem admin_pages_noninterference:
  assumes "LoadAndDecrypt (ue_vault U) m s = (Inr t, s1)" "LoadAndDecrypt (ue_vault U) m s' = (Inr t', s1')"
    and "tree_ok t" "tree_ok t'"
    and "\<And>k. readable up k \<Longrightarrow>
      map_option IsFolder (map_of (nodes_of t) k) = map_option IsFolder (map_of (nodes_of t') k)"
    and "rq_path r \<notin> {''/unlock'', ''/update'', ''/delete'', ''/export''}"
  shows "fst (mux U up r m s) = fst (mux U up r m s')"
proof -
  have same: "buildTreeState t cp ep up = buildTreeState t' cp ep up" for cp ep
    by (rule buildTreeState_same [OF assms(3-5)])
  have "fst (entry_handler U up r m s) = fst (entry_handler U up r m s')"
    "fst (root_handler U up r m s) = fst (root_handler U up r m s')"
    using assms(1,2) by (simp_all add: entry_handler_def root_handler_def same Let_def)
  with assms(6) show ?thesis by (simp add: mux_def)
qed

definition app_user :: "UserPermissions option" where
  "app_user = Some (GetUserPermissions plain_manager ''ann'')"

definition site_other :: "ref_world \<times> ref_net" where
  "site_other = (\<lparr>writes = [(False, sealed [secret_at ''/app/a'' ''99'', secret_at ''/hr/pay'' ''7''])], script = []\<rparr>,
     \<lparr>rn_clock = 0, rn_serves = None\<rparr>)"

theorem admin_pages_noninterference_witness:
  "fst (mux site_ui app_user (proxied ''ann'' []) unlocked site_start) =
   fst (mux site_ui app_user (proxied ''ann'' []) unlocked site_other)"
proof -
  let ?t = "\<lparr>Nodes = Some [secret_at ''/app/a'' ''1'']\<rparr>"
  let ?t' = "\<lparr>Nodes = Some [secret_at ''/app/a'' ''99'', secret_at ''/hr/pay'' ''7'']\<rparr>"
  have v: "ue_vault site_ui = site_vault" by (simp add: site_ui_def)
  have "fst (LoadAndDecrypt site_vault unlocked site_start) = Inr ?t"
    and "fst (LoadAndDecrypt site_vault unlocked site_other) = Inr ?t'"
    and hr: "\<not> readable app_user ''/hr/pay''"
    by code_simp+
  then obtain s1 s1' where l: "LoadAndDecrypt (ue_vault site_ui) unlocked site_start = (Inr ?t, s1)"
    "LoadAndDecrypt (ue_vault site_ui) unlocked site_other = (Inr ?t', s1')"
    unfolding v by (metis prod.collapse)
  have ok: "tree_ok ?t" "tree_ok ?t'"
    unfolding tree_ok_code by code_simp+
  have same: "map_option IsFolder (map_of (nodes_of ?t) k) = map_option IsFolder (map_of (nodes_of ?t') k)"
    if "readable app_user k" for k
  proof -
    have "k \<noteq> ''/hr/pay''" using that hr by metis
    then show ?thesis by (auto simp: secret_at_def)
  qed
  have "rq_path (proxied ''ann'' []) \<notin> {''/unlock'', ''/update'', ''/delete'', ''/export''}"
    by (simp add: proxied_def)
  from admin_pages_noninterference [OF l ok same this] show ?thesis .
qed

text \<open>
  (C38) The encrypted blob goes to admins only: a reply that carries it answers an
  authenticated request to \<^verbatim>\<open>/export\<close> by an admin (or by anyone in development mode without
  permission manager) on an unlocked vault. Every reply forbids framing, whatever it is.
\<close>

theorem admin_export_admin_only:
  assumes "admin_request L U oh tr ah dev r pmo m s = (rep, pmo', m', s')"
  shows "(''X-Frame-Options'', ''DENY'') \<in> set (reply_headers rep) \<and>
    (\<forall>ct. reply_body rep = Download ct \<longrightarrow>
       rq_path r = ''/export'' \<and> \<not> isLocked m \<and>
       (\<exists>up s1. withAuth L ah dev pmo r s = (Forward up, pmo', s1) \<and>
          (case up of None \<Rightarrow> pmo = None \<and> dev | Some u \<Rightarrow> isAdmin u)))"
proof (intro conjI allI impI)
  note cases = admin_request_cases [OF assms]
  show "(''X-Frame-Options'', ''DENY'') \<in> set (reply_headers rep)"
    using cases by (simp add: frame_headers_def)
  fix ct assume d: "reply_body rep = Download ct"
  with cases obtain up s1 where a: "withAuth L ah dev pmo r s = (Forward up, pmo', s1)"
    and x: "mux U up r m s1 = (Download ct, m', s')"
    by auto
  have e: "rq_path r = ''/export'' \<and> export_handler U up r m s1 = (Download ct, m', s')"
    using x
    by (auto simp: mux_def root_handler_def entry_handler_def unlock_handler_def update_handler_def
        delete_handler_def load_failed_def write_response_def Let_def
        split: if_splits sum.splits prod.splits option.splits vault_error.splits call_result.splits)
  then have "\<not> isLocked m" "\<not> (case up of None \<Rightarrow> False | Some u \<Rightarrow> \<not> CanExport u)"
    by (auto simp: export_handler_def IsLocked_def split: if_splits)
  moreover from this(2) have "case up of None \<Rightarrow> pmo = None \<and> dev | Some u \<Rightarrow> isAdmin u"
    using a by (auto simp: CanExport_def dest!: withAuth_anonymous split: option.splits)
  ultimately show "rq_path r = ''/export''" and "\<not> isLocked m"
    and "\<exists>up s1. withAuth L ah dev pmo r s = (Forward up, pmo', s1) \<and>
          (case up of None \<Rightarrow> pmo = None \<and> dev | Some u \<Rightarrow> isAdmin u)"
    using e a by auto
qed

theorem admin_export_admin_only_witness:
  "\<exists>rep pmo' m' s'. site_request ((proxied ''ann'' [])\<lparr>rq_path := ''/export''\<rparr>) unlocked = (rep, pmo', m', s') \<and>
     reply_body rep = HttpError 403 ''Forbidden'' \<and> (''X-Frame-Options'', ''DENY'') \<in> set (reply_headers rep)"
proof -
  let ?r = "(proxied ''ann'' [])\<lparr>rq_path := ''/export''\<rparr>"
  obtain rep pmo' m' s' where q: "site_request ?r unlocked = (rep, pmo', m', s')"
    by (metis prod.exhaust)
  have b: "(case site_request ?r unlocked of (rep, pmo', m', s') \<Rightarrow> reply_body rep = HttpError 403 ''Forbidden'')"
    by code_simp
  from admin_export_admin_only [OF q [unfolded site_request_def]]
  have "(''X-Frame-Options'', ''DENY'') \<in> set (reply_headers rep)" by blast
  with q b show ?thesis unfolding q by auto
qed

end
