(* ===== verification/Page_Links.thy ===== *)
theory Page_Links
  imports Admin_Page Admin_Properties
begin

text \<open>
  The links of the web interface: what a browser asks for when a link of a page is
  followed, and what the handlers answer. It joins the template, its escaping, the reading
  of the query, the listing of the tree and the checks of the handlers.
\<close>

section \<open>Links\<close>

text \<open>The text after the last quotation mark is the start of the link that an action completes.\<close>

definition url_start :: "string \<Rightarrow> string" where
  "url_start s = last (split_on (CHR 0x22) s)"

fun links_from :: "string \<Rightarrow> piece list \<Rightarrow> string list" where
  "links_from s [] = []"
| "links_from s (Static t # ps) = links_from t ps"
| "links_from s (Escaped x # ps) = links_from [] ps"
| "links_from s (Query q # ps) = (url_start s @ query_escape q) # links_from [] ps"

definition links :: "piece list \<Rightarrow> string list" where
  "links ps = links_from [] ps"

definition root_url :: "string \<Rightarrow> string" where
  "root_url p = ''/?path='' @ query_escape p"

definition entry_url :: "string \<Rightarrow> string" where
  "entry_url p = ''/entry?path='' @ query_escape p"

text \<open>The request for a link, from the host and with the headers of the request before.\<close>

definition click :: "string \<Rightarrow> http_request \<Rightarrow> http_request" where
  "click url r =
     (let p = takeWhile (\<lambda>c. c \<noteq> CHR ''?'') url
      in r\<lparr>rq_method := ''GET'', rq_path := p, rq_form := (\<lambda>_. []),
           rq_query := query_get (drop (Suc (length p)) url)\<rparr>)"

lemma click_url:
  "rq_path (click (root_url p) r) = ''/''" "rq_query (click (root_url p) r) ''path'' = p"
  "rq_path (click (entry_url p) r) = ''/entry''" "rq_query (click (entry_url p) r) ''path'' = p"
  "rq_method (click u r) = ''GET''"
  using query_get_escape [of p] by (simp_all add: click_def root_url_def entry_url_def Let_def)

section \<open>The links of a page\<close>

definition starts :: "piece list \<Rightarrow> bool" where
  "starts ps \<longleftrightarrow> ps = [] \<or> (\<exists>s qs. ps = Static s # qs)"

lemma starts_simps [simp]: "starts []" "starts (Static s # ps)"
  by (simp_all add: starts_def)

lemma starts_append [simp]: "starts ps \<Longrightarrow> starts qs \<Longrightarrow> starts (ps @ qs)"
  by (auto simp: starts_def)

lemma starts_concat [simp]: "(\<And>x. starts (f x)) \<Longrightarrow> starts (concat (map f xs))"
  by (induction xs) simp_all

lemma links_from_starts: "starts qs \<Longrightarrow> links_from s qs = links qs"
  by (auto simp: starts_def links_def)

lemma links_append: "starts qs \<Longrightarrow> links (ps @ qs) = links ps @ links qs"
proof -
  assume "starts qs"
  then have "links_from s (ps @ qs) = links_from s ps @ links qs" for s
    by (induction s ps rule: links_from.induct) (simp_all add: links_from_starts)
  then show ?thesis by (simp add: links_def)
qed

lemma links_concat: "(\<And>x. starts (f x)) \<Longrightarrow> links (concat (map f xs)) = concat (map (\<lambda>x. links (f x)) xs)"
proof (induction xs)
  case (Cons x xs)
  then show ?case by (simp add: links_append)
qed (simp add: links_def)

lemma starts_items [simp]:
  "starts (crumb_item b)" "starts (folder_item x)" "starts (entry_item e)" "starts (folder_detail st d)"
  by (simp_all add: crumb_item_def folder_item_def entry_item_def folder_detail_def)

lemma starts_views [simp]: "starts (breadcrumb_bar st)" "starts (entry_view st)" "starts (listing_view st)"
  by (simp_all add: breadcrumb_bar_def entry_view_def listing_view_def)

lemma links_crumb: "links (crumb_item b) = (if bc_IsLast b then [] else [root_url (bc_Path b)])"
  by (simp add: crumb_item_def links_def url_start_def root_url_def)

lemma links_folder: "links (folder_item x) = [root_url (uf_Path x)]"
  by (simp add: folder_item_def links_def url_start_def root_url_def)

lemma links_entry: "links (entry_item x) = [entry_url (us_Path x)]"
  by (simp add: entry_item_def links_def url_start_def entry_url_def)

lemma links_detail: "links (folder_detail st d) = []"
  by (simp add: folder_detail_def links_def)

lemma links_Nil: "links [] = []"
  by (simp add: links_def)

lemma links_Static: "links [Static s] = []"
  by (simp add: links_def)

lemma links_if: "links (if b then ps else qs) = (if b then links ps else links qs)"
  by simp

definition crumb_urls :: "UIState \<Rightarrow> string list" where
  "crumb_urls st = map (\<lambda>b. root_url (bc_Path b)) (filter (\<lambda>b. \<not> bc_IsLast b) (Breadcrumbs st))"

lemma links_bar: "links (breadcrumb_bar st) = crumb_urls st"
proof -
  have "concat (map (\<lambda>b. if bc_IsLast b then [] else [root_url (bc_Path b)]) bs) =
      map (\<lambda>b. root_url (bc_Path b)) (filter (\<lambda>b. \<not> bc_IsLast b) bs)" for bs
    by (induction bs) simp_all
  then show ?thesis
    by (simp only: breadcrumb_bar_def links_append starts_concat starts_items links_concat links_Static
        links_crumb crumb_urls_def append_Nil)
qed

lemma links_listing:
  "links (listing_view st) = crumb_urls st @ map (\<lambda>f. root_url (uf_Path f)) (Folders st) @
     map (\<lambda>e. entry_url (us_Path e)) (Entries st)"
proof -
  have title: "links [Static a, if c then Escaped x else Static r, Static b] = []" for a c x r b
    by (simp add: links_def)
  have detail: "links (case Folder st of None \<Rightarrow> [] | Some d \<Rightarrow> folder_detail st d) = []"
    "starts (case Folder st of None \<Rightarrow> [] | Some d \<Rightarrow> folder_detail st d)"
    by (simp_all add: links_detail links_Nil split: option.split)
  have none: "links (if c then [Static a] else []) = []" "starts (if c then [Static a] else [])" for a c
    by (simp_all add: links_def)
  have one: "concat (map (\<lambda>x. [g x]) xs) = map g xs" for g :: "'x \<Rightarrow> string" and xs
    by (induction xs) simp_all
  show ?thesis
    unfolding listing_view_def
    by (simp only: links_append starts_append starts_simps starts_concat starts_items links_concat links_Static
        links_bar links_folder links_entry title detail none one append_Nil append_Nil2)
qed

lemma links_entry_view: "links (entry_view st) = crumb_urls st @ [root_url (ParentPath st)]"
proof -
  have "links [Static a, Query q, Static b, Escaped c, Static d, Escaped e, Static f, Escaped g, Static h] =
      [url_start a @ query_escape q]" for a b c d e f g h q
    by (simp add: links_def)
  then show ?thesis
    unfolding entry_view_def
    by (simp add: links_append links_bar url_start_def root_url_def)
qed

lemma links_fixed: "links page_head = []" "links unlock_form = []" "links update_form = []"
    "starts page_head" "starts unlock_form" "starts update_form"
  by (simp_all add: page_head_def unlock_form_def update_form_def links_def)

lemma links_admin:
  "links (adminHTML st) =
     (if Locked st then [] else if IsEntryView st then links (entry_view st) else links (listing_view st))"
proof -
  have alert: "links (if c then [] else [Static a, Escaped x, Static b]) = []"
    "starts (if c then [] else [Static a, Escaped x, Static b])" for a b c x
    by (simp_all add: links_def)
  have export: "links (if c then [] else [Static a]) = []" "starts (if c then [] else [Static a])" for a c
    by (simp_all add: links_def)
  have body: "links (if c then unlock_form else
      [Static a] @ (if d then entry_view st else listing_view st) @ update_form) =
      (if c then [] else if d then links (entry_view st) else links (listing_view st))"
    "starts (if c then unlock_form else [Static a] @ (if d then entry_view st else listing_view st) @ update_form)"
    for a c d
    by (cases c; cases d; simp only: if_True if_False links_append starts_append starts_simps starts_views links_Static
        links_fixed append_Nil append_Nil2)+
  show ?thesis
    unfolding adminHTML_def
    by (simp only: links_append starts_append starts_simps links_Static links_fixed alert export body append_Nil append_Nil2)
qed

section \<open>Following them\<close>

lemma view_flags [simp]:
  "Error (buildTreeState t cp ep up) = []" "Locked (buildTreeState t cp ep up) = False"
  by (simp_all add: buildTreeState_def zero_state_def Let_def case_prod_unfold)

lemma listing_flag: "IsEntryView (buildTreeState t cp [] up) = False"
  by (simp add: buildTreeState_def zero_state_def Let_def case_prod_unfold normalizePath_def)

lemma unlocked_state: "(buildTreeState t cp ep up)\<lparr>Locked := False\<rparr> = buildTreeState t cp ep up"
proof -
  have "st\<lparr>Locked := False\<rparr> = st" if "\<not> Locked st" for st :: UIState
    using that by (cases st) simp
  then show ?thesis by simp
qed

lemma loaded_unlocked: "LoadAndDecrypt E m s = (Inr t, s1) \<Longrightarrow> \<not> isLocked m"
  by (auto simp: LoadAndDecrypt_def split: bool.splits)

lemma root_click:
  assumes "LoadAndDecrypt (ue_vault U) m s = (Inr t, s1)"
  shows "mux U up (click (root_url p) r) m s = (Page (buildTreeState t (if p = [] then ''/'' else p) [] up), m, s1)"
  using assms loaded_unlocked [OF assms]
  by (simp add: mux_def root_handler_def click_url IsLocked_def unlocked_state)

lemma entry_click:
  assumes "LoadAndDecrypt (ue_vault U) m s = (Inr t, s1)" "readable up p"
  shows "mux U up (click (entry_url p) r) m s = (Page (buildTreeState t [] p up), m, s1)"
  using assms loaded_unlocked [OF assms(1)]
  by (simp add: mux_def entry_handler_def click_url IsLocked_def unlocked_state)

lemma listed_entry:
  assumes "tree_ok t" "canonical (normalizePath p)" and "e \<in> set (Entries (buildTreeState t p [] up))"
  shows "readable up (us_Path e)" and "Entry (buildTreeState t [] (us_Path e) up) = e"
    and "EntryPath (buildTreeState t [] (us_Path e) up) = us_Path e"
proof -
  from assms(3) obtain k z n where e: "e = \<lparr>us_Path = k, us_Name = z\<rparr>" and n: "map_of (nodes_of t) k = Some n"
    "\<not> IsFolder n" and rd: "readable up k" and k: "abs_path k = abs_path (normalizePath p) @ [z]"
    unfolding folder_view set_sort page_entries_set [OF assms(1,2)] by blast
  have c: "canonical k" "k \<noteq> ''/''"
    using tree_okD(2) [OF assms(1)] map_of_SomeD [OF n(1)] by blast+
  have r: "normalizePath k = k" using canonical_rooted [OF c(1)] by simp
  have "path_base (render (abs_path (normalizePath p) @ [z])) = z"
    using abs_path_good [of k] k by (intro path_base_render) simp
  then have b: "path_base k = z" using c(1) k by (metis canonical_def)
  show "readable up (us_Path e)" using rd e by simp
  show "Entry (buildTreeState t [] (us_Path e) up) = e" "EntryPath (buildTreeState t [] (us_Path e) up) = us_Path e"
    using e n rd c(2) r b by (simp_all add: buildTreeState_def Let_def)
qed

lemma listed_folder:
  assumes "tree_ok t" "canonical (normalizePath p)" and "f \<in> set (Folders (buildTreeState t p [] up))"
  shows "uf_Path f \<noteq> []"
  using assms(3) unfolding folder_view set_sort page_folders_set [OF assms(1,2)] by auto

section \<open>Properties\<close>


text \<open>A path with a space and an ampersand.\<close>

definition odd_tree :: VaultTree where
  "odd_tree = \<lparr>Nodes = Some [secret_at ''/app/a b&c'' ''1'']\<rparr>"

definition odd_site :: "ref_world \<times> ref_net" where
  "odd_site = (\<lparr>writes = [(False, sealed [secret_at ''/app/a b&c'' ''1''])], script = []\<rparr>,
     \<lparr>rn_clock = 0, rn_serves = None\<rparr>)"


end
