(* ===== verification/Perm_Watch.thy ===== *)
theory Perm_Watch
  imports Perm_Load
begin

text \<open>
  Watching the permissions file (permissions.go: \<^verbatim>\<open>Watch\<close>): the event loop with its debounced
  reload timer, as one function per turn of the \<^verbatim>\<open>select\<close>, and the system it forms with the
  file. A watch belongs to the file it was placed on: after the kubelet swaps the symlink
  the path names a new file while the watch is still on the old one, whose deletion is the
  event the loop reacts to. Time is in milliseconds.
\<close>

section \<open>The loop\<close>

datatype fs_op = Create | Write | Remove | Rename | Chmod

datatype watch_place = OnCurrent | OnOld | Off

datatype watch_exit =
    WatchDone
  | WatchFailed string

text \<open>
  \<open>ws_file\<close> is the file that the path names now, \<open>ws_queue\<close> the events not yet received,
  \<open>ws_timer\<close> the time at which the reload timer fires, if it runs.
\<close>

record 'p watch_sys =
  ws_now :: nat
  ws_file :: "bytes option"
  ws_watch :: watch_place
  ws_queue :: "fs_op list list"
  ws_timer :: "nat option"
  ws_tables :: 'p

definition read_file :: "bytes option \<Rightarrow> string + bytes" where
  "read_file f = (case f of None \<Rightarrow> Inl ''no such file or directory'' | Some d \<Rightarrow> Inr d)"

definition addWatch :: "'p watch_sys \<Rightarrow> string option \<times> 'p watch_sys" where
  "addWatch s =
     (if ws_file s = None then (Some ''failed to watch permissions file'', s)
      else (None, s\<lparr>ws_watch := OnCurrent\<rparr>))"

definition debounce :: nat where
  "debounce = 100"

text \<open>Stopping and draining the timer, then resetting it, leaves it running from now.\<close>

definition resetReloadTimer :: "'p watch_sys \<Rightarrow> 'p watch_sys" where
  "resetReloadTimer s = s\<lparr>ws_timer := Some (ws_now s + debounce)\<rparr>"

definition on_event :: "fs_op list \<Rightarrow> 'p watch_sys \<Rightarrow> 'p watch_sys" where
  "on_event event s =
     (if Remove \<in> set event \<or> Rename \<in> set event then
        (case addWatch (s\<lparr>ws_watch := Off\<rparr>) of
           (Some err, s1) \<Rightarrow> s1
         | (None, s1) \<Rightarrow> resetReloadTimer s1)
      else if Write \<notin> set event \<and> Create \<notin> set event \<and> Chmod \<notin> set event then s
      else resetReloadTimer s)"

definition on_timer ::
    "'n yaml \<Rightarrow> 'a perm_tables_scheme watch_sys \<Rightarrow> 'a perm_tables_scheme watch_sys" where
  "on_timer Y s =
     s\<lparr>ws_timer := None, ws_tables := snd (Load Y (read_file (ws_file s)) (ws_tables s))\<rparr>"

text \<open>What wakes the \<^verbatim>\<open>select\<close>; \<^term>\<open>None\<close> is a closed channel.\<close>

datatype wake =
    CtxDone
  | FsEvent "fs_op list option"
  | FsError "string option"
  | TimerFired

definition watch_turn ::
    "'n yaml \<Rightarrow> wake \<Rightarrow> 'a perm_tables_scheme watch_sys \<Rightarrow>
     watch_exit option \<times> 'a perm_tables_scheme watch_sys" where
  "watch_turn Y w s =
     (case w of
        CtxDone \<Rightarrow> (Some WatchDone, s)
      | FsEvent None \<Rightarrow> (Some (WatchFailed ''permissions watcher event channel closed''), s)
      | FsEvent (Some event) \<Rightarrow> (None, on_event event s)
      | FsError None \<Rightarrow> (Some (WatchFailed ''permissions watcher error channel closed''), s)
      | FsError (Some err) \<Rightarrow> (None, s)
      | TimerFired \<Rightarrow> (None, on_timer Y s))"

text \<open>
  The start of \<^verbatim>\<open>Watch\<close>: the argument is the error of creating the watcher, if any. The
  timer is created, fires at once and is drained.
\<close>

definition watch_start :: "string option \<Rightarrow> 'p watch_sys \<Rightarrow> watch_exit option \<times> 'p watch_sys" where
  "watch_start new_err s =
     (case new_err of
        Some e \<Rightarrow> (Some (WatchFailed (''failed to create fsnotify watcher: '' @ e)), s)
      | None \<Rightarrow>
          (case addWatch s of
             (Some e, s1) \<Rightarrow> (Some (WatchFailed e), s1)
           | (None, s1) \<Rightarrow> (None, s1\<lparr>ws_timer := None\<rparr>)))"

section \<open>The loop and its environment\<close>

text \<open>
  Changes of the file and the events they cause, the passing of time, and the turns of the
  loop. No event is lost by the kernel.
\<close>

definition notify :: "fs_op list \<Rightarrow> 'p watch_sys \<Rightarrow> 'p watch_sys" where
  "notify e s = s\<lparr>ws_queue := ws_queue s @ [e]\<rparr>"

inductive watch_step ::
    "'n yaml \<Rightarrow> 'a perm_tables_scheme watch_sys \<Rightarrow> 'a perm_tables_scheme watch_sys \<Rightarrow> bool"
  for Y :: "'n yaml" where
  edit: "ws_file s \<noteq> None \<Longrightarrow> ws_watch s = OnCurrent \<Longrightarrow>
    watch_step Y s (notify [Write] (s\<lparr>ws_file := Some d\<rparr>))"
| edit_unseen: "ws_file s \<noteq> None \<Longrightarrow> ws_watch s \<noteq> OnCurrent \<Longrightarrow>
    watch_step Y s (s\<lparr>ws_file := Some d\<rparr>)"
| swap: "ws_watch s = OnCurrent \<Longrightarrow>
    watch_step Y s (s\<lparr>ws_file := Some d, ws_watch := OnOld\<rparr>)"
| swap_unseen: "ws_watch s \<noteq> OnCurrent \<Longrightarrow>
    watch_step Y s (s\<lparr>ws_file := Some d\<rparr>)"
| old_deleted: "ws_watch s = OnOld \<Longrightarrow>
    watch_step Y s (notify [Remove] (s\<lparr>ws_watch := Off\<rparr>))"
| vanish: "ws_watch s = OnCurrent \<Longrightarrow>
    watch_step Y s (notify [Remove] (s\<lparr>ws_file := None, ws_watch := Off\<rparr>))"
| vanish_unseen: "ws_watch s \<noteq> OnCurrent \<Longrightarrow> watch_step Y s (s\<lparr>ws_file := None\<rparr>)"
| tick: "watch_step Y s (s\<lparr>ws_now := ws_now s + n\<rparr>)"
| event: "ws_queue s = e # q \<Longrightarrow> watch_turn Y (FsEvent (Some e)) (s\<lparr>ws_queue := q\<rparr>) = (None, s') \<Longrightarrow>
    watch_step Y s s'"
| fs_error: "watch_turn Y (FsError (Some err)) s = (None, s') \<Longrightarrow> watch_step Y s s'"
| timer: "ws_timer s = Some t \<Longrightarrow> t \<le> ws_now s \<Longrightarrow> watch_turn Y TimerFired s = (None, s') \<Longrightarrow>
    watch_step Y s s'"

section \<open>Convergence\<close>

text \<open>The tables in force are the result of loading the file as it is now.\<close>

definition up_to_date :: "'n yaml \<Rightarrow> 'a perm_tables_scheme watch_sys \<Rightarrow> bool" where
  "up_to_date Y s \<longleftrightarrow> (\<exists>pm. ws_tables s = snd (Load Y (read_file (ws_file s)) pm))"

definition removal :: "fs_op list \<Rightarrow> bool" where
  "removal e \<longleftrightarrow> Remove \<in> set e \<or> Rename \<in> set e"

definition relevant :: "fs_op list \<Rightarrow> bool" where
  "relevant e \<longleftrightarrow> e \<noteq> []"

text \<open>The watch is gone and no event is left that would re-establish it.\<close>

definition watch_lost :: "'p watch_sys \<Rightarrow> bool" where
  "watch_lost s \<longleftrightarrow> ws_watch s = Off \<and> \<not> list_ex removal (ws_queue s)"

definition watch_inv :: "'n yaml \<Rightarrow> 'a perm_tables_scheme watch_sys \<Rightarrow> bool" where
  "watch_inv Y s \<longleftrightarrow>
     (ws_watch s = OnCurrent \<longrightarrow> ws_file s \<noteq> None) \<and>
     (up_to_date Y s \<or> ws_timer s \<noteq> None \<or> list_ex relevant (ws_queue s) \<or>
      ws_watch s = OnOld \<or> watch_lost s)"

lemma relevant_op: "relevant e \<longleftrightarrow> (\<exists>x. x \<in> set e)"
  by (cases e) (auto simp: relevant_def)

lemma removal_relevant: "removal e \<Longrightarrow> relevant e"
  by (auto simp: removal_def relevant_op)

lemma removals_relevant: "list_ex removal q \<Longrightarrow> list_ex relevant q"
  unfolding list_ex_iff by (blast intro: removal_relevant)

lemma up_to_date_simps [simp]:
  "up_to_date Y (s\<lparr>ws_now := n\<rparr>) = up_to_date Y s"
  "up_to_date Y (s\<lparr>ws_watch := w\<rparr>) = up_to_date Y s"
  "up_to_date Y (s\<lparr>ws_queue := q\<rparr>) = up_to_date Y s"
  "up_to_date Y (s\<lparr>ws_timer := t\<rparr>) = up_to_date Y s"
  by (simp_all add: up_to_date_def)

lemma on_timer_up_to_date: "up_to_date Y (on_timer Y s)"
  by (auto simp: up_to_date_def on_timer_def)

lemma on_event_cases:
  "(removal e \<and> ws_file s = None \<and> on_event e s = s\<lparr>ws_watch := Off\<rparr>) \<or>
   (removal e \<and> ws_file s \<noteq> None \<and> on_event e s = resetReloadTimer (s\<lparr>ws_watch := OnCurrent\<rparr>)) \<or>
   (\<not> removal e \<and> relevant e \<and> on_event e s = resetReloadTimer s) \<or>
   (\<not> relevant e \<and> on_event e s = s)"
proof (cases "removal e \<or> \<not> relevant e")
  case False
  then have "Write \<in> set e \<or> Create \<in> set e \<or> Chmod \<in> set e"
    by (metis fs_op.exhaust relevant_op removal_def)
  with False show ?thesis by (auto simp: on_event_def removal_def)
qed (auto simp: on_event_def removal_def addWatch_def relevant_def)

lemma event_inv:
  assumes "watch_inv Y s" "ws_queue s = e # q"
  shows "watch_inv Y (on_event e (s\<lparr>ws_queue := q\<rparr>))"
  using on_event_cases [of e "s\<lparr>ws_queue := q\<rparr>"]
proof (elim disjE conjE)
  let ?s = "s\<lparr>ws_queue := q\<rparr>"
  show ?thesis if "removal e" "ws_file ?s = None" "on_event e ?s = ?s\<lparr>ws_watch := Off\<rparr>"
    using that removals_relevant [of q] by (auto simp: watch_inv_def watch_lost_def)
  show ?thesis if "removal e" "ws_file ?s \<noteq> None" "on_event e ?s = resetReloadTimer (?s\<lparr>ws_watch := OnCurrent\<rparr>)"
    using that by (auto simp: watch_inv_def resetReloadTimer_def)
  show ?thesis if "\<not> removal e" "relevant e" "on_event e ?s = resetReloadTimer ?s"
    using that assms(1) by (auto simp: watch_inv_def resetReloadTimer_def)
  show ?thesis if "\<not> relevant e" "on_event e ?s = ?s"
    using that assms by (auto simp: watch_inv_def watch_lost_def)
qed

lemma watch_step_inv: "watch_step Y s s' \<Longrightarrow> watch_inv Y s \<Longrightarrow> watch_inv Y s'"
proof (induction rule: watch_step.induct)
  case (event s e q s')
  then show ?case by (auto simp: watch_turn_def intro: event_inv)
next
  case (timer s t s')
  then have "s' = on_timer Y s" by (simp add: watch_turn_def)
  then show ?case
    using timer.prems on_timer_up_to_date [of Y s] by (auto simp: watch_inv_def on_timer_def)
next
  case (tick s n)
  then show ?case by (auto simp: watch_inv_def watch_lost_def)
next
  case (fs_error err s s')
  then show ?case by (simp add: watch_turn_def)
qed (use removals_relevant in \<open>auto simp: watch_inv_def watch_lost_def notify_def relevant_def removal_def
      intro: watch_place.exhaust\<close>)

section \<open>Stability\<close>

inductive_cases watch_stepE: "watch_step Y s s'"

lemma on_event_tables [simp]: "ws_tables (on_event e s) = ws_tables s"
  using on_event_cases [of e s] by (auto simp: resetReloadTimer_def)

lemma step_tables:
  "watch_step Y s s' \<Longrightarrow> ws_tables s' = ws_tables s \<or>
     (\<exists>t. ws_timer s = Some t \<and> t \<le> ws_now s \<and> s' = on_timer Y s)"
  by (induction rule: watch_step.induct) (auto simp: notify_def watch_turn_def)

lemma steps_inv: "(watch_step Y)\<^sup>*\<^sup>* s s' \<Longrightarrow> watch_inv Y s \<Longrightarrow> watch_inv Y s'"
  by (induction rule: rtranclp.induct) (auto intro: watch_step_inv)

text \<open>Without watch, event and timer the loop does nothing any more.\<close>

definition dead :: "'p watch_sys \<Rightarrow> bool" where
  "dead s \<longleftrightarrow> ws_watch s = Off \<and> ws_queue s = [] \<and> ws_timer s = None"

lemma dead_step: "watch_step Y s s' \<Longrightarrow> dead s \<Longrightarrow> dead s' \<and> ws_tables s' = ws_tables s"
  by (induction rule: watch_step.induct) (auto simp: dead_def watch_turn_def)

lemma dead_steps: "(watch_step Y)\<^sup>*\<^sup>* s s' \<Longrightarrow> dead s \<Longrightarrow> dead s' \<and> ws_tables s' = ws_tables s"
  by (induction rule: rtranclp.induct) (auto dest: dead_step)

section \<open>Settling\<close>

text \<open>
  What happens when the file is left alone: the kubelet deletes the old file behind a
  swapped symlink, pending events are received, time passes up to the due time of the
  timer, and the timer fires.
\<close>

inductive settle_step ::
    "'n yaml \<Rightarrow> 'a perm_tables_scheme watch_sys \<Rightarrow> 'a perm_tables_scheme watch_sys \<Rightarrow> bool"
  for Y :: "'n yaml" where
  cleanup: "ws_watch s = OnOld \<Longrightarrow> settle_step Y s (notify [Remove] (s\<lparr>ws_watch := Off\<rparr>))"
| receive: "ws_queue s = e # q \<Longrightarrow> watch_turn Y (FsEvent (Some e)) (s\<lparr>ws_queue := q\<rparr>) = (None, s') \<Longrightarrow>
    settle_step Y s s'"
| wait: "ws_timer s = Some t \<Longrightarrow> ws_now s < t \<Longrightarrow> 0 < n \<Longrightarrow> settle_step Y s (s\<lparr>ws_now := ws_now s + n\<rparr>)"
| fire: "ws_timer s = Some t \<Longrightarrow> t \<le> ws_now s \<Longrightarrow> watch_turn Y TimerFired s = (None, s') \<Longrightarrow>
    settle_step Y s s'"

text \<open>They are steps of the system, and only finitely many can follow each other.\<close>

lemma settle_watch_step: "settle_step Y s s' \<Longrightarrow> watch_step Y s s'"
  by (induction rule: settle_step.induct)
    (auto intro: watch_step.old_deleted watch_step.event watch_step.tick watch_step.timer)

definition pending :: "'p watch_sys \<Rightarrow> nat" where
  "pending s = length (ws_queue s) + (if ws_watch s = OnOld then 2 else 0)"

definition until_due :: "'p watch_sys \<Rightarrow> nat" where
  "until_due s = (case ws_timer s of None \<Rightarrow> 0 | Some t \<Rightarrow> Suc (t - ws_now s))"

lemma on_event_frame:
  "ws_file (on_event e s) = ws_file s" "ws_queue (on_event e s) = ws_queue s" "ws_now (on_event e s) = ws_now s"
  "ws_watch (on_event e s) = OnOld \<Longrightarrow> ws_watch s = OnOld"
  using on_event_cases [of e s] by (auto simp: resetReloadTimer_def)

lemma settle_decreases:
  "settle_step Y s s' \<Longrightarrow> ((pending s', until_due s'), pending s, until_due s) \<in> less_than <*lex*> less_than"
proof (induction rule: settle_step.induct)
  case (receive s e q s')
  then have "s' = on_event e (s\<lparr>ws_queue := q\<rparr>)" by (simp add: watch_turn_def)
  with receive on_event_frame [of e "s\<lparr>ws_queue := q\<rparr>"] show ?case
    by (auto simp: pending_def)
qed (auto simp: pending_def until_due_def notify_def watch_turn_def on_timer_def)

lemma settle_terminates: "wfP (\<lambda>s' s. settle_step Y s s')"
proof -
  have "wf (inv_image (less_than <*lex*> less_than) (\<lambda>s. (pending s, until_due s)))"
    by (intro wf_inv_image wf_lex_prod wf_less_than)
  moreover have "{(s', s). settle_step Y s s'} \<subseteq>
      inv_image (less_than <*lex*> less_than) (\<lambda>s. (pending s, until_due s))"
    using settle_decreases by (auto simp: inv_image_def)
  ultimately show ?thesis
    unfolding wfp_def by (rule wf_subset)
qed

text \<open>A watch on an existing file stays recoverable, and the file stays as it is.\<close>

lemma settle_keeps:
  "settle_step Y s s' \<Longrightarrow> ws_file s \<noteq> None \<Longrightarrow> \<not> watch_lost s \<Longrightarrow>
     ws_file s' = ws_file s \<and> \<not> watch_lost s'"
proof (induction rule: settle_step.induct)
  case (receive s e q s')
  let ?s = "s\<lparr>ws_queue := q\<rparr>"
  have s': "s' = on_event e ?s" using receive by (simp add: watch_turn_def)
  have "removal e \<longrightarrow> ws_watch s' = OnCurrent"
    using on_event_cases [of e ?s] removal_relevant [of e] receive.prems s'
    by (auto simp: resetReloadTimer_def)
  moreover have "\<not> removal e \<longrightarrow> ws_watch s' = ws_watch s"
    using on_event_cases [of e ?s] s' by (auto simp: resetReloadTimer_def)
  ultimately show ?case
    using receive on_event_frame [of e ?s] s' by (auto simp: watch_lost_def)
qed (auto simp: watch_lost_def notify_def removal_def watch_turn_def on_timer_def)

lemma settles_keep:
  "(settle_step Y)\<^sup>*\<^sup>* s s' \<Longrightarrow> ws_file s \<noteq> None \<Longrightarrow> \<not> watch_lost s \<Longrightarrow>
     ws_file s' = ws_file s \<and> \<not> watch_lost s'"
  by (induction rule: rtranclp.induct) (auto dest: settle_keeps)

lemma settle_stuck:
  assumes "\<nexists>s'. settle_step Y s s'"
  shows "ws_queue s = []" "ws_timer s = None" "ws_watch s \<noteq> OnOld"
proof -
  show "ws_watch s \<noteq> OnOld" using assms settle_step.cleanup by blast
  show "ws_queue s = []"
    using assms settle_step.receive [of s] by (cases "ws_queue s") (auto simp: watch_turn_def)
  show "ws_timer s = None"
  proof (cases "ws_timer s")
    case (Some t)
    then show ?thesis
      using assms settle_step.wait [of s t 1 Y] settle_step.fire [of s t Y]
      by (cases "t \<le> ws_now s") (auto simp: watch_turn_def)
  qed
qed

lemma settle_steps_watch: "(settle_step Y)\<^sup>*\<^sup>* s s' \<Longrightarrow> (watch_step Y)\<^sup>*\<^sup>* s s'"
  by (rule rtranclp_mono [THEN predicate2D]) (auto intro: settle_watch_step)

section \<open>Properties\<close>


definition two_docs :: "ref_node yaml" where
  "two_docs = ref_yaml [(''v1'', []), (''v2'', ops_doc)]"

definition watched :: "perm_tables watch_sys" where
  "watched = \<lparr>ws_now = 0, ws_file = Some ''v1'', ws_watch = OnCurrent, ws_queue = [], ws_timer = None,
     ws_tables = \<lparr>permissions = [], admins = [], namespacePermissions = []\<rparr>\<rparr>"

lemma watched_start: "ws_file watched = Some ''v1''" "ws_watch watched = OnCurrent" "up_to_date two_docs watched"
proof -
  have "snd (Load two_docs (read_file (ws_file watched)) (ws_tables watched)) = ws_tables watched"
    by code_simp
  then show "up_to_date two_docs watched" unfolding up_to_date_def by metis
qed (simp_all add: watched_def)


text \<open>
  The tables in force change only by a complete load of the current file, and only
  when the reload timer is due; a relevant event restarts the timer for 100 ms, so a burst
  of events causes one load after it.
\<close>

lemma Watch_reload_only_when_due:
  assumes "watch_step Y s s'" and "ws_tables s' \<noteq> ws_tables s"
  shows "(\<exists>t. ws_timer s = Some t \<and> t \<le> ws_now s) \<and>
    ws_tables s' = snd (Load Y (read_file (ws_file s)) (ws_tables s)) \<and>
    (\<forall>e \<in> {e. e \<noteq> [] \<and> ws_file s \<noteq> None}. ws_timer (on_event e s) = Some (ws_now s + 100))"
proof -
  have "ws_timer (on_event e s) = Some (ws_now s + 100)" if "e \<noteq> []" "ws_file s \<noteq> None" for e
    using that on_event_cases [of e s] by (auto simp: resetReloadTimer_def relevant_def debounce_def)
  with step_tables [OF assms(1)] assms(2) show ?thesis by (auto simp: on_timer_def)
qed

text \<open>
  (C40) The watch can be lost for good: if the path does not exist at the moment a removal
  is handled and no reload is pending, the loop keeps running but the tables never change
  again, whatever is done to the file afterwards.
\<close>

theorem Watch_lost_forever:
  assumes "ws_queue s = [e]" "removal e" "ws_file s = None" "ws_timer s = None"
    and "watch_step Y s s1" "s1 = on_event e (s\<lparr>ws_queue := []\<rparr>)" and "(watch_step Y)\<^sup>*\<^sup>* s1 s2"
  shows "ws_tables s2 = ws_tables s"
proof -
  have "dead s1"
    using assms(1-4,6) on_event_cases [of e "s\<lparr>ws_queue := []\<rparr>"] removal_relevant [of e]
    by (auto simp: dead_def)
  with dead_steps [OF assms(7)] assms(6) show ?thesis by simp
qed

theorem Watch_lost_forever_witness:
  "\<exists>s. (watch_step two_docs)\<^sup>*\<^sup>* watched s \<and> ws_file s = Some ''v2'' \<and>
     map_of (permissions (ws_tables s)) ''bob'' = None"
proof -
  let ?s = "notify [Remove] (watched\<lparr>ws_file := None, ws_watch := Off\<rparr>)"
  let ?s1 = "on_event [Remove] (?s\<lparr>ws_queue := []\<rparr>)"
  let ?s2 = "?s1\<lparr>ws_file := Some ''v2''\<rparr>"
  have v: "watch_step two_docs watched ?s"
    by (rule watch_step.vanish) (simp add: watched_def)
  have e: "watch_step two_docs ?s ?s1"
    by (rule watch_step.event [where e = "[Remove]" and q = "[]"]) (simp_all add: watched_def notify_def watch_turn_def)
  have a: "watch_step two_docs ?s1 ?s2"
    by (rule watch_step.swap_unseen) (simp add: watched_def notify_def on_event_def addWatch_def)
  have pre: "ws_queue ?s = [[Remove]]" "removal [Remove]" "ws_file ?s = None" "ws_timer ?s = None"
    by (simp_all add: watched_def notify_def removal_def)
  have "ws_tables ?s2 = ws_tables ?s"
    by (rule Watch_lost_forever [OF pre e refl]) (use a in \<open>meson r_into_rtranclp\<close>)
  moreover have "map_of (permissions (ws_tables ?s)) ''bob'' = None" "ws_file ?s2 = Some ''v2''"
    by (simp_all add: watched_def notify_def)
  moreover have "(watch_step two_docs)\<^sup>*\<^sup>* watched ?s2"
    using v e a by (meson converse_rtranclp_into_rtranclp r_into_rtranclp)
  ultimately show ?thesis by metis
qed

end
