(* ===== verification/Settings.thy ===== *)
theory Settings
  imports Go_Strings
begin

text \<open>
  The configuration (config.go): the record of settings, the resolution of secrets that
  may be given in a file, and what it gives. The environment parser that fills the record
  and \<^verbatim>\<open>os.ReadFile\<close> are parameters. Durations are integers in nanoseconds.
\<close>

section \<open>The settings\<close>

record Config =
  MasterKey :: string
  MasterKeyFile :: string
  VaultSecretName :: string
  VaultNamespace :: string
  SocketPath :: string
  HTTPPort :: int
  DevMode :: bool
  LogLevel :: string
  PermConfigPath :: string
  JWTPublicKey :: string
  JWTPublicKeyFile :: string
  JWTUserClaim :: string
  JWTAudience :: string
  JWTIssuer :: string
  JWTUserHeader :: string
  JWTAdminHeader :: string
  JWTAdminValue :: string
  JWTJWKSURL :: string
  JWTJWKS :: string
  JWTJWKSFile :: string
  JWTJWKSRefreshInterval :: int
  OAuthUserInfoCacheTTL :: int
  CSRFTrustedOrigins :: "string list"
  KMSCiphertext :: string
  KMSCiphertextFile :: string
  GCPKMSKeyName :: string
  GCPKMSKeyNameFile :: string
  GCPKMSCiphertext :: string
  GCPKMSCiphertextFile :: string

section \<open>Secrets from files\<close>

definition resolveSecretValue ::
    "(string \<Rightarrow> string + bytes) \<Rightarrow> string \<Rightarrow> string \<Rightarrow> string + string" where
  "resolveSecretValue readFile inline filePath =
     (if filePath \<noteq> [] then
        (case readFile filePath of
           Inl err \<Rightarrow> Inl (''failed to read secret file: '' @ err)
         | Inr data \<Rightarrow> Inr (trimSpace data))
      else Inr inline)"

text \<open>
  A resolver has the name of the variable, the pointer to the field (reading and writing
  through it), and the path. Paths are read when the list is built.
\<close>

record resolver =
  rs_name :: string
  rs_read :: "Config \<Rightarrow> string"
  rs_write :: "string \<Rightarrow> Config \<Rightarrow> Config"
  rs_path :: string

definition resolvers :: "Config \<Rightarrow> resolver list" where
  "resolvers c =
     [\<lparr>rs_name = ''MASTER_KEY'', rs_read = MasterKey,
       rs_write = (\<lambda>v. MasterKey_update (\<lambda>_. v)), rs_path = MasterKeyFile c\<rparr>,
      \<lparr>rs_name = ''JWT_PUBLIC_KEY'', rs_read = JWTPublicKey,
       rs_write = (\<lambda>v. JWTPublicKey_update (\<lambda>_. v)), rs_path = JWTPublicKeyFile c\<rparr>,
      \<lparr>rs_name = ''JWT_JWKS'', rs_read = JWTJWKS,
       rs_write = (\<lambda>v. JWTJWKS_update (\<lambda>_. v)), rs_path = JWTJWKSFile c\<rparr>,
      \<lparr>rs_name = ''KMS_CIPHERTEXT'', rs_read = KMSCiphertext,
       rs_write = (\<lambda>v. KMSCiphertext_update (\<lambda>_. v)), rs_path = KMSCiphertextFile c\<rparr>,
      \<lparr>rs_name = ''GCP_KMS_KEY_NAME'', rs_read = GCPKMSKeyName,
       rs_write = (\<lambda>v. GCPKMSKeyName_update (\<lambda>_. v)), rs_path = GCPKMSKeyNameFile c\<rparr>,
      \<lparr>rs_name = ''GCP_KMS_CIPHERTEXT'', rs_read = GCPKMSCiphertext,
       rs_write = (\<lambda>v. GCPKMSCiphertext_update (\<lambda>_. v)), rs_path = GCPKMSCiphertextFile c\<rparr>]"

text \<open>The error names the variable; fields resolved before it keep their new values.\<close>

fun resolve_loop ::
    "(string \<Rightarrow> string + bytes) \<Rightarrow> resolver list \<Rightarrow> Config \<Rightarrow> (string \<times> string) option \<times> Config" where
  "resolve_loop readFile [] c = (None, c)"
| "resolve_loop readFile (r # rs) c =
     (case resolveSecretValue readFile (rs_read r c) (rs_path r) of
        Inl err \<Rightarrow> (Some (rs_name r, err), c)
      | Inr val \<Rightarrow> resolve_loop readFile rs (rs_write r val c))"

definition ResolveSecrets ::
    "(string \<Rightarrow> string + bytes) \<Rightarrow> Config \<Rightarrow> (string \<times> string) option \<times> Config" where
  "ResolveSecrets readFile c = resolve_loop readFile (resolvers c) c"

section \<open>What resolution gives\<close>

text \<open>The value in force: the trimmed content of the file, if one is named, else the inline one.\<close>

definition in_force :: "(string \<Rightarrow> string + bytes) \<Rightarrow> string \<Rightarrow> string \<Rightarrow> string" where
  "in_force readFile inline filePath =
     (if filePath = [] then inline
      else (case readFile filePath of Inl err \<Rightarrow> [] | Inr data \<Rightarrow> trimSpace data))"

definition resolved :: "(string \<Rightarrow> string + bytes) \<Rightarrow> Config \<Rightarrow> Config" where
  "resolved rf c =
     c\<lparr>MasterKey := in_force rf (MasterKey c) (MasterKeyFile c),
       JWTPublicKey := in_force rf (JWTPublicKey c) (JWTPublicKeyFile c),
       JWTJWKS := in_force rf (JWTJWKS c) (JWTJWKSFile c),
       KMSCiphertext := in_force rf (KMSCiphertext c) (KMSCiphertextFile c),
       GCPKMSKeyName := in_force rf (GCPKMSKeyName c) (GCPKMSKeyNameFile c),
       GCPKMSCiphertext := in_force rf (GCPKMSCiphertext c) (GCPKMSCiphertextFile c)\<rparr>"

text \<open>The variables with their files, in the order of resolution.\<close>

definition secret_files :: "Config \<Rightarrow> (string \<times> string) list" where
  "secret_files c =
     [(''MASTER_KEY'', MasterKeyFile c), (''JWT_PUBLIC_KEY'', JWTPublicKeyFile c),
      (''JWT_JWKS'', JWTJWKSFile c), (''KMS_CIPHERTEXT'', KMSCiphertextFile c),
      (''GCP_KMS_KEY_NAME'', GCPKMSKeyNameFile c), (''GCP_KMS_CIPHERTEXT'', GCPKMSCiphertextFile c)]"

definition unreadable :: "(string \<Rightarrow> string + bytes) \<Rightarrow> string \<Rightarrow> bool" where
  "unreadable rf p \<longleftrightarrow> p \<noteq> [] \<and> isl (rf p)"

lemma resolveSecretValue_cases:
  "resolveSecretValue rf v p =
     (if unreadable rf p then Inl (''failed to read secret file: '' @ projl (rf p))
      else Inr (in_force rf v p))"
  by (auto simp: resolveSecretValue_def in_force_def unreadable_def split: sum.splits)

definition read_failure :: "(string \<Rightarrow> string + bytes) \<Rightarrow> string \<times> string \<Rightarrow> string \<times> string" where
  "read_failure rf np = (fst np, ''failed to read secret file: '' @ projl (rf (snd np)))"

lemma resolve_loop_first:
  "fst (resolve_loop rf rs c) =
     map_option (read_failure rf) (find (unreadable rf \<circ> snd) (map (\<lambda>r. (rs_name r, rs_path r)) rs))"
  by (induction rs arbitrary: c) (simp_all add: resolveSecretValue_cases read_failure_def)

lemma resolver_files:
  "map (\<lambda>r. (rs_name r, rs_path r)) (resolvers c) = secret_files c"
  by (simp add: resolvers_def secret_files_def)

lemma ResolveSecrets_first:
  "fst (ResolveSecrets rf c) =
     map_option (read_failure rf) (find (unreadable rf \<circ> snd) (secret_files c))"
  unfolding ResolveSecrets_def resolve_loop_first resolver_files ..

lemma ResolveSecrets_ok:
  assumes "find (unreadable rf \<circ> snd) (secret_files c) = None"
  shows "ResolveSecrets rf c = (None, resolved rf c)"
  using assms
  by (simp add: ResolveSecrets_def resolvers_def secret_files_def resolveSecretValue_cases resolved_def
      split: if_splits)

section \<open>Properties\<close>

text \<open>
  (C33) Files take precedence: a resolution that succeeds replaces exactly the six secrets, each
  by the trimmed content of its file when one is named and by the inline value otherwise,
  and changes no other setting; it fails exactly when a named file cannot be read, naming
  the first such variable.
\<close>

theorem ResolveSecrets_precedence:
  "case find (unreadable rf \<circ> snd) (secret_files c) of
     None \<Rightarrow> ResolveSecrets rf c = (None, resolved rf c)
   | Some np \<Rightarrow> fst (ResolveSecrets rf c) = Some (read_failure rf np)"
  using ResolveSecrets_first [of rf c] ResolveSecrets_ok [of rf c] by (simp split: option.split)

end
