(* ===== verification/Key_Provider.thy ===== *)
theory Key_Provider
  imports Settings Go_Base64 Vault_Atomic
begin

text \<open>
  Where the master key comes from: the clients of the two key management services
  (awskms/kms.go, gcpkms/gcpkms.go), the providers over them (keyprovider_kms.go,
  keyprovider_gcpkms.go), the provider of the environment (config.go) and the choice between
  them (keyprovider.go). The SDKs are parameters. The contract of a provider is the locale
  \<open>master_key_provider\<close>, which each provider interprets; its client is \<^verbatim>\<open>NewVaultManager\<close>.
\<close>

section \<open>The clients\<close>

text \<open>
  A \<^verbatim>\<open>Decryptor\<close> of AWS takes the ciphertext, one of GCP also the name of the key; the
  result is the plaintext, which may be nil.
\<close>

datatype kms_error =
    CiphertextEncoding
  | DecryptCallFailed string
  | EmptyPlaintext
  | ClientFailed string

record 's aws_client =
  aws_Decrypt :: "bytes \<Rightarrow> 's \<Rightarrow> (string + bytes option) \<times> 's"

record 's gcp_client =
  gcp_Decrypt :: "string \<Rightarrow> bytes \<Rightarrow> 's \<Rightarrow> (string + bytes option) \<times> 's"
  gcp_keyName :: string

text \<open>What both \<^verbatim>\<open>GetAgeKey\<close> methods make of the result of the call.\<close>

definition plaintext_key :: "(string + bytes option) \<times> 's \<Rightarrow> (kms_error + string) \<times> 's" where
  "plaintext_key result =
     (case result of
        (Inl err, s) \<Rightarrow> (Inl (DecryptCallFailed err), s)
      | (Inr None, s) \<Rightarrow> (Inl EmptyPlaintext, s)
      | (Inr (Some p), s) \<Rightarrow> (if p = [] then Inl EmptyPlaintext else Inr p, s))"

definition aws_GetAgeKey :: "'s aws_client \<Rightarrow> string \<Rightarrow> 's \<Rightarrow> (kms_error + string) \<times> 's" where
  "aws_GetAgeKey c ciphertextB64 s =
     (case std_decode ciphertextB64 of
        None \<Rightarrow> (Inl CiphertextEncoding, s)
      | Some ct \<Rightarrow> plaintext_key (aws_Decrypt c ct s))"

definition gcp_GetAgeKey :: "'s gcp_client \<Rightarrow> string \<Rightarrow> 's \<Rightarrow> (kms_error + string) \<times> 's" where
  "gcp_GetAgeKey c ciphertextB64 s =
     (case std_decode ciphertextB64 of
        None \<Rightarrow> (Inl CiphertextEncoding, s)
      | Some ct \<Rightarrow> plaintext_key (gcp_Decrypt c (gcp_keyName c) ct s))"

text \<open>The constructors that take a \<^verbatim>\<open>Decryptor\<close>.\<close>

definition aws_NewClientWithDecryptor ::
    "(bytes \<Rightarrow> 's \<Rightarrow> (string + bytes option) \<times> 's) \<Rightarrow> 's aws_client" where
  "aws_NewClientWithDecryptor d = \<lparr>aws_Decrypt = d\<rparr>"

definition gcp_NewClientWithDecryptor ::
    "(string \<Rightarrow> bytes \<Rightarrow> 's \<Rightarrow> (string + bytes option) \<times> 's) \<Rightarrow> string \<Rightarrow> 's gcp_client" where
  "gcp_NewClientWithDecryptor d keyName = \<lparr>gcp_Decrypt = d, gcp_keyName = keyName\<rparr>"

section \<open>The providers\<close>

datatype 's MasterKeyProvider =
    EnvKeyProvider string
  | AwsKMSKeyProvider string "'s aws_client"
  | GcpKMSKeyProvider string "'s gcp_client"

datatype provider_error =
    NoKeyInEnvironment
  | KMSFailed kms_error

definition env_GetMasterKey :: "string \<Rightarrow> 's \<Rightarrow> (provider_error + string) \<times> 's" where
  "env_GetMasterKey key s = (if key = [] then Inl NoKeyInEnvironment else Inr key, s)"

definition kms_result :: "(kms_error + string) \<times> 's \<Rightarrow> (provider_error + string) \<times> 's" where
  "kms_result res = (case res of (Inl e, s) \<Rightarrow> (Inl (KMSFailed e), s) | (Inr k, s) \<Rightarrow> (Inr k, s))"

definition aws_GetMasterKey :: "string \<Rightarrow> 's aws_client \<Rightarrow> 's \<Rightarrow> (provider_error + string) \<times> 's" where
  "aws_GetMasterKey ct c s = kms_result (aws_GetAgeKey c ct s)"

definition gcp_GetMasterKey :: "string \<Rightarrow> 's gcp_client \<Rightarrow> 's \<Rightarrow> (provider_error + string) \<times> 's" where
  "gcp_GetMasterKey ct c s = kms_result (gcp_GetAgeKey c ct s)"

text \<open>The interface \<^verbatim>\<open>MasterKeyProvider\<close>: the dynamic dispatch is the case distinction.\<close>

definition GetMasterKey :: "'s MasterKeyProvider \<Rightarrow> 's \<Rightarrow> (provider_error + string) \<times> 's" where
  "GetMasterKey p s =
     (case p of
        EnvKeyProvider key \<Rightarrow> env_GetMasterKey key s
      | AwsKMSKeyProvider ct c \<Rightarrow> aws_GetMasterKey ct c s
      | GcpKMSKeyProvider ct c \<Rightarrow> gcp_GetMasterKey ct c s)"

text \<open>
  The libraries the factories need: \<^verbatim>\<open>config.LoadDefaultConfig\<close> with \<^verbatim>\<open>kms.NewFromConfig\<close>,
  and \<^verbatim>\<open>kms.NewKeyManagementClient\<close>, each giving a \<^verbatim>\<open>Decryptor\<close> or an error.
\<close>

record 's kms_sdk =
  aws_new :: "'s \<Rightarrow> (string + (bytes \<Rightarrow> 's \<Rightarrow> (string + bytes option) \<times> 's)) \<times> 's"
  gcp_new :: "'s \<Rightarrow> (string + (string \<Rightarrow> bytes \<Rightarrow> 's \<Rightarrow> (string + bytes option) \<times> 's)) \<times> 's"

definition aws_NewClient :: "'s kms_sdk \<Rightarrow> 's \<Rightarrow> (kms_error + 's aws_client) \<times> 's" where
  "aws_NewClient K s =
     (case aws_new K s of
        (Inl err, s1) \<Rightarrow> (Inl (ClientFailed err), s1)
      | (Inr d, s1) \<Rightarrow> (Inr \<lparr>aws_Decrypt = d\<rparr>, s1))"

definition gcp_NewClient :: "'s kms_sdk \<Rightarrow> string \<Rightarrow> 's \<Rightarrow> (kms_error + 's gcp_client) \<times> 's" where
  "gcp_NewClient K keyName s =
     (case gcp_new K s of
        (Inl err, s1) \<Rightarrow> (Inl (ClientFailed err), s1)
      | (Inr d, s1) \<Rightarrow> (Inr \<lparr>gcp_Decrypt = d, gcp_keyName = keyName\<rparr>, s1))"

text \<open>A registered factory gives a provider or nil.\<close>

type_synonym 's factory = "Config \<Rightarrow> 's \<Rightarrow> 's MasterKeyProvider option \<times> 's"

definition aws_factory :: "'s kms_sdk \<Rightarrow> 's factory" where
  "aws_factory K cfg s =
     (if KMSCiphertext cfg = [] then (None, s)
      else (case aws_NewClient K s of
              (Inl err, s1) \<Rightarrow> (None, s1)
            | (Inr c, s1) \<Rightarrow> (Some (AwsKMSKeyProvider (KMSCiphertext cfg) c), s1)))"

definition gcp_factory :: "'s kms_sdk \<Rightarrow> 's factory" where
  "gcp_factory K cfg s =
     (if GCPKMSCiphertext cfg = [] \<or> GCPKMSKeyName cfg = [] then (None, s)
      else (case gcp_NewClient K (GCPKMSKeyName cfg) s of
              (Inl err, s1) \<Rightarrow> (None, s1)
            | (Inr c, s1) \<Rightarrow> (Some (GcpKMSKeyProvider (GCPKMSCiphertext cfg) c), s1)))"

text \<open>
  The build tags decide which \<^verbatim>\<open>init\<close> functions exist; they run in the order of the file
  names, so the factory of GCP is registered first.
\<close>

definition keyProviders :: "bool \<Rightarrow> bool \<Rightarrow> 's kms_sdk \<Rightarrow> 's factory list" where
  "keyProviders gcpkms kms K =
     (if gcpkms then [gcp_factory K] else []) @ (if kms then [aws_factory K] else [])"

fun resolve_factories :: "'s factory list \<Rightarrow> Config \<Rightarrow> 's \<Rightarrow> 's MasterKeyProvider \<times> 's" where
  "resolve_factories [] cfg s = (EnvKeyProvider (MasterKey cfg), s)"
| "resolve_factories (p # ps) cfg s =
     (case p cfg s of
        (Some prov, s1) \<Rightarrow> (prov, s1)
      | (None, s1) \<Rightarrow> resolve_factories ps cfg s1)"

definition resolveKeyProvider ::
    "'s factory list \<Rightarrow> Config \<Rightarrow> 's \<Rightarrow> 's MasterKeyProvider \<times> 's" where
  "resolveKeyProvider registered cfg s = resolve_factories registered cfg s"

text \<open>The provider as \<^verbatim>\<open>NewVaultManager\<close> sees it; it only logs the error.\<close>

definition as_key_source :: "('e \<Rightarrow> string) \<Rightarrow> ('s \<Rightarrow> ('e + string) \<times> 's) \<Rightarrow> 's \<Rightarrow> (string + string) \<times> 's" where
  "as_key_source text get s = (case get s of (Inl e, s1) \<Rightarrow> (Inl (text e), s1) | (Inr k, s1) \<Rightarrow> (Inr k, s1))"

section \<open>The contract of a provider\<close>

text \<open>
  \<open>holds s k\<close>: in the state \<open>s\<close> the provider stands for the key \<open>k\<close>. A provider never
  returns the empty key, and what it returns is the key it stands for.
\<close>

locale master_key_provider =
  fixes get :: "'s \<Rightarrow> ('e + string) \<times> 's"
    and holds :: "'s \<Rightarrow> string \<Rightarrow> bool"
  assumes key_not_empty: "get s = (Inr k, s') \<Longrightarrow> k \<noteq> []"
    and key_held: "get s = (Inr k, s') \<Longrightarrow> holds s k"
begin

text \<open>
  A manager starts unlocked exactly if the provider gives a key that parses and that the
  stored vault does not contradict; then it has the identity of that key.
\<close>

lemma start_manager:
  assumes "NewVaultManager E (Some (as_key_source text get)) s = (m, s')"
  shows "(isLocked m \<and> identity m = None) \<or>
    (\<exists>k i s1 s2. holds s k \<and> get s = (Inr k, s1) \<and> parse_master_key E k = Inr i \<and>
       verifyIdentity E i s1 = (None, s2) \<and> s' = s2 \<and> m = \<lparr>identity = Some i, isLocked = False\<rparr>)"
proof (cases "get s")
  case (Pair r s1)
  show ?thesis
  proof (cases r)
    case (Inl e)
    with Pair assms show ?thesis by (auto simp: NewVaultManager_def as_key_source_def)
  next
    case (Inr k)
    with Pair have g: "get s = (Inr k, s1)" by simp
    from key_held [OF g] key_not_empty [OF g] g assms show ?thesis
      by (auto simp: NewVaultManager_def as_key_source_def Unlock_def IsLocked_def unlock_commit_def Let_def
          split: sum.splits prod.splits option.splits)
  qed
qed

lemma start_unlocks:
  assumes "get s = (Inr k, s1)" "parse_master_key E k = Inr i" "verifyIdentity E i s1 = (None, s2)"
  shows "NewVaultManager E (Some (as_key_source text get)) s = (\<lparr>identity = Some i, isLocked = False\<rparr>, s2)"
  using assms key_not_empty [OF assms(1)]
  by (simp add: NewVaultManager_def as_key_source_def Unlock_def IsLocked_def unlock_commit_def Let_def)

end

section \<open>The providers keep the contract\<close>

text \<open>What each provider stands for.\<close>

definition aws_holds :: "'s aws_client \<Rightarrow> string \<Rightarrow> 's \<Rightarrow> string \<Rightarrow> bool" where
  "aws_holds c b64 s k \<longleftrightarrow> (\<exists>ct s'. std_decode b64 = Some ct \<and> aws_Decrypt c ct s = (Inr (Some k), s'))"

definition gcp_holds :: "'s gcp_client \<Rightarrow> string \<Rightarrow> 's \<Rightarrow> string \<Rightarrow> bool" where
  "gcp_holds c b64 s k \<longleftrightarrow>
     (\<exists>ct s'. std_decode b64 = Some ct \<and> gcp_Decrypt c (gcp_keyName c) ct s = (Inr (Some k), s'))"

definition stands_for :: "'s MasterKeyProvider \<Rightarrow> 's \<Rightarrow> string \<Rightarrow> bool" where
  "stands_for p s k =
     (case p of
        EnvKeyProvider key \<Rightarrow> k = key
      | AwsKMSKeyProvider ct c \<Rightarrow> aws_holds c ct s k
      | GcpKMSKeyProvider ct c \<Rightarrow> gcp_holds c ct s k)"

lemma plaintext_key_Inr:
  "plaintext_key result = (Inr k, s') \<longleftrightarrow> result = (Inr (Some k), s') \<and> k \<noteq> []"
  by (auto simp: plaintext_key_def split: prod.splits sum.splits option.splits if_splits)

lemma kms_result_Inr: "kms_result res = (Inr k, s') \<longleftrightarrow> res = (Inr k, s')"
  by (auto simp: kms_result_def split: prod.splits sum.splits)

lemma aws_GetAgeKey_Inr:
  "aws_GetAgeKey c b s = (Inr k, s') \<longleftrightarrow>
     (\<exists>ct. std_decode b = Some ct \<and> aws_Decrypt c ct s = (Inr (Some k), s') \<and> k \<noteq> [])"
  by (auto simp: aws_GetAgeKey_def plaintext_key_Inr split: option.splits)

lemma gcp_GetAgeKey_Inr:
  "gcp_GetAgeKey c b s = (Inr k, s') \<longleftrightarrow>
     (\<exists>ct. std_decode b = Some ct \<and> gcp_Decrypt c (gcp_keyName c) ct s = (Inr (Some k), s') \<and> k \<noteq> [])"
  by (auto simp: gcp_GetAgeKey_def plaintext_key_Inr split: option.splits)

interpretation env_provider: master_key_provider "env_GetMasterKey key" "\<lambda>s k. k = key" for key
  by unfold_locales (auto simp: env_GetMasterKey_def split: if_splits)

interpretation aws_provider: master_key_provider "aws_GetAgeKey c b64" "aws_holds c b64" for c b64
  by unfold_locales (auto simp: aws_GetAgeKey_Inr aws_holds_def)

interpretation gcp_provider: master_key_provider "gcp_GetAgeKey c b64" "gcp_holds c b64" for c b64
  by unfold_locales (auto simp: gcp_GetAgeKey_Inr gcp_holds_def)

interpretation provider: master_key_provider "GetMasterKey p" "stands_for p" for p
  by unfold_locales
    (auto simp: GetMasterKey_def aws_GetMasterKey_def gcp_GetMasterKey_def stands_for_def kms_result_Inr
      dest: env_provider.key_not_empty env_provider.key_held aws_provider.key_not_empty
        aws_provider.key_held gcp_provider.key_not_empty gcp_provider.key_held
      split: MasterKeyProvider.splits)

end
