(* ===== verification/Csi_Mount.thy ===== *)
theory Csi_Mount
  imports Policy Reference_World
begin

text \<open>
  The CSI provider (csi.go): \<^verbatim>\<open>canAccess\<close>, \<^verbatim>\<open>Mount\<close> and \<^verbatim>\<open>Version\<close>. \<^verbatim>\<open>Mount\<close> loads the
  vault, walks the comma-separated requests of the pod and returns the files, or the
  first error. The attributes of the request are JSON (see \<^verbatim>\<open>Vault_Json\<close>).
\<close>

section \<open>Data\<close>

record ('id, 'a) ProviderServer =
  sv_manager :: "'id VaultManager"
  sv_permMgr :: "'a perm_tables_scheme option"
  sv_allowUnauthenticated :: bool

record mount_file =
  file_path :: string
  file_mode :: nat
  file_contents :: bytes

record object_version =
  version_id :: string
  version_of :: string

datatype mount_error =
    MountLocked
  | BadAttributes json_error
  | IdentityRequired
  | IdentityForbidden
  | LoadFailed vault_error
  | InvalidFileName string
  | PathNotFound string
  | AccessDenied string

section \<open>Operations\<close>

definition canAccess :: "('id, 'a) ProviderServer \<Rightarrow> string \<Rightarrow> string \<Rightarrow> string \<Rightarrow> bool" where
  "canAccess sv namespace sa vaultPath =
     server_canAccess (sv_permMgr sv) (sv_allowUnauthenticated sv) namespace sa vaultPath"

text \<open>A missing attribute reads as the empty string.\<close>

definition attr :: "(string, string) gomap \<Rightarrow> string \<Rightarrow> string" where
  "attr attrs k = (case map_of attrs k of None \<Rightarrow> [] | Some v \<Rightarrow> v)"

text \<open>One element of the request list: \<^term>\<open>None\<close> is skipped.\<close>

definition parse_request :: "string \<Rightarrow> (string \<times> string) option" where
  "parse_request reqPair0 =
     (let reqPair = trimSpace reqPair0
      in if reqPair = [] then None
         else (case splitN2 (CHR ''='') reqPair of
                 [name, path] \<Rightarrow> Some (trimSpace name, normalizePath (trimSpace path))
               | _ \<Rightarrow> None))"

definition bad_file_name :: "string \<Rightarrow> bool" where
  "bad_file_name fileName \<longleftrightarrow>
     containsChar fileName slash \<or> containsChar fileName backslash \<or>
     fileName = ''..'' \<or> hasPrefix fileName ''.''"

definition forbidden_in_identity :: "string \<Rightarrow> bool" where
  "forbidden_in_identity s = containsAny s [slash, backslash, CHR 0x00]"

text \<open>
  The loop over the requests; the mode of every file is octal 644, which is 420.
\<close>

fun mount_loop ::
    "(string \<Rightarrow> bool) \<Rightarrow> VaultTree \<Rightarrow> string list \<Rightarrow> mount_file list \<Rightarrow> object_version list \<Rightarrow>
     mount_error + mount_file list \<times> object_version list" where
  "mount_loop allowed tree [] files versions = Inr (files, versions)"
| "mount_loop allowed tree (reqPair # requests) files versions =
     (case parse_request reqPair of
        None \<Rightarrow> mount_loop allowed tree requests files versions
      | Some (fileName, vaultPath) \<Rightarrow>
          if bad_file_name fileName then Inl (InvalidFileName fileName)
          else (case map_of (nodes_of tree) vaultPath of
                  None \<Rightarrow> Inl (PathNotFound vaultPath)
                | Some node \<Rightarrow>
                    if \<not> allowed vaultPath then Inl (AccessDenied vaultPath)
                    else mount_loop allowed tree requests
                      (files @ [\<lparr>file_path = fileName, file_mode = 420, file_contents = Value node\<rparr>])
                      (versions @ [\<lparr>version_id = fileName, version_of = ''latest''\<rparr>])))"

definition ns_attr :: string where
  "ns_attr = ''csi.storage.k8s.io/pod.namespace''"

definition sa_attr :: string where
  "sa_attr = ''csi.storage.k8s.io/serviceAccount.name''"

definition Mount ::
    "('s, 'id) vault_env \<Rightarrow> ('id, 'a) ProviderServer \<Rightarrow> string \<Rightarrow> 's \<Rightarrow>
     (mount_error + mount_file list \<times> object_version list) \<times> 's" where
  "Mount E sv attributes s =
     (if IsLocked (sv_manager sv) then (Inl MountLocked, s)
      else (case unmarshal_attrs attributes of
              Inl e \<Rightarrow> (Inl (BadAttributes e), s)
            | Inr attrs \<Rightarrow>
                (let podNamespace = trimSpace (attr attrs ns_attr);
                     podSA = trimSpace (attr attrs sa_attr)
                 in if podNamespace = [] \<or> podSA = [] then (Inl IdentityRequired, s)
                    else if forbidden_in_identity podNamespace \<or> forbidden_in_identity podSA
                      then (Inl IdentityForbidden, s)
                    else (case LoadAndDecrypt E (sv_manager sv) s of
                            (Inl e, s1) \<Rightarrow> (Inl (LoadFailed e), s1)
                          | (Inr tree, s1) \<Rightarrow>
                              (mount_loop (canAccess sv podNamespace podSA) tree
                                 (split_on (CHR '','') (attr attrs ''secrets'')) [] [], s1)))))"

definition Version :: "string \<times> string \<times> string" where
  "Version = (''v1alpha1'', ''csi-secret-age-provider'', ''1.0.0'')"

section \<open>The loop\<close>

text \<open>What one accepted request contributes, and when it is accepted.\<close>

definition accepted :: "(string \<Rightarrow> bool) \<Rightarrow> VaultTree \<Rightarrow> string \<times> string \<Rightarrow> bool" where
  "accepted allowed tree req =
     (case req of (fileName, vaultPath) \<Rightarrow>
        \<not> bad_file_name fileName \<and> map_of (nodes_of tree) vaultPath \<noteq> None \<and> allowed vaultPath)"

definition file_for :: "VaultTree \<Rightarrow> string \<times> string \<Rightarrow> mount_file" where
  "file_for tree req =
     (case req of (fileName, vaultPath) \<Rightarrow>
        \<lparr>file_path = fileName, file_mode = 420,
         file_contents = (case map_of (nodes_of tree) vaultPath of Some n \<Rightarrow> Value n | None \<Rightarrow> [])\<rparr>)"

definition version_for :: "string \<times> string \<Rightarrow> object_version" where
  "version_for req = \<lparr>version_id = fst req, version_of = ''latest''\<rparr>"

lemma mount_loop_ok:
  "mount_loop al tree reqs files versions = Inr (fs, vs) \<longleftrightarrow>
     list_all (accepted al tree) (List.map_filter parse_request reqs) \<and>
     fs = files @ map (file_for tree) (List.map_filter parse_request reqs) \<and>
     vs = versions @ map version_for (List.map_filter parse_request reqs)"
proof (induction reqs arbitrary: files versions)
  case (Cons r reqs)
  then show ?case
    by (cases "parse_request r")
       (auto simp: map_filter_simps accepted_def file_for_def version_for_def
         split: option.splits if_splits)
qed (auto simp: map_filter_simps)

lemma mount_loop_total:
  "\<not> list_all (accepted al tree) (List.map_filter parse_request reqs) \<Longrightarrow>
     \<exists>e. mount_loop al tree reqs files versions = Inl e"
  by (cases "mount_loop al tree reqs files versions") (auto simp: mount_loop_ok)

text \<open>
  The checks in their order: among unauthorised requests, an absent path is reported as
  not found and an existing one as denied.
\<close>

lemma mount_loop_first:
  assumes "parse_request r = Some (fileName, p)" and "\<not> bad_file_name fileName" and "\<not> al p"
  shows "mount_loop al tree (r # reqs) files versions =
    Inl (if map_of (nodes_of tree) p = None then PathNotFound p else AccessDenied p)"
  using assms by (auto split: option.splits)

section \<open>Identities\<close>

lemma identity_chars: "\<not> forbidden_in_identity s \<Longrightarrow> slash \<notin> set s"
  by (auto simp: forbidden_in_identity_def containsAny_def list_ex_iff)

text \<open>Without a slash in either part, the key of the namespace table is unambiguous.\<close>

lemma identity_key_inject:
  assumes "slash \<notin> set ns" "slash \<notin> set ns'"
  shows "ns @ ''/'' @ sa = ns' @ ''/'' @ sa' \<longleftrightarrow> ns = ns' \<and> sa = sa'"
proof
  assume "ns @ ''/'' @ sa = ns' @ ''/'' @ sa'"
  from arg_cong [where f = "splitN2 slash", OF this] show "ns = ns' \<and> sa = sa'"
    using splitN2_append [OF assms(1)] splitN2_append [OF assms(2)] by simp
qed simp

lemma MountE:
  assumes "Mount E sv a s = (Inr (fs, vs), s')"
  obtains attrs ns sa tree where "unmarshal_attrs a = Inr attrs"
    and "ns = trimSpace (attr attrs ns_attr)" "sa = trimSpace (attr attrs sa_attr)"
    and "ns \<noteq> []" "sa \<noteq> []" "\<not> forbidden_in_identity ns" "\<not> forbidden_in_identity sa"
    and "\<not> isLocked (sv_manager sv)" and "LoadAndDecrypt E (sv_manager sv) s = (Inr tree, s')"
    and "mount_loop (canAccess sv ns sa) tree (split_on (CHR '','') (attr attrs ''secrets'')) [] [] = Inr (fs, vs)"
  using assms
  by (auto simp: Mount_def IsLocked_def Let_def split: if_splits sum.splits prod.splits)

end
