(* ===== verification/Mount_Properties.thy ===== *)
theory Mount_Properties
  imports Csi_Mount Vault_Properties
begin

text \<open>
  The properties of the CSI provider: what a pod can get out of a mount, the exact result
  of a request list, the separation of identities, and what errors tell a pod.
\<close>

section \<open>Definitions for the statements\<close>

text \<open>The identity that \<^verbatim>\<open>Mount\<close> takes from the attributes, and the requests it parses.\<close>

definition pod_identity :: "(string, string) gomap \<Rightarrow> string \<times> string" where
  "pod_identity attrs = (trimSpace (attr attrs ns_attr), trimSpace (attr attrs sa_attr))"

definition identity_ok :: "string \<times> string \<Rightarrow> bool" where
  "identity_ok idn = (case idn of (ns, sa) \<Rightarrow>
     ns \<noteq> [] \<and> sa \<noteq> [] \<and> \<not> forbidden_in_identity ns \<and> \<not> forbidden_in_identity sa)"

definition pod_requests :: "(string, string) gomap \<Rightarrow> (string \<times> string) list" where
  "pod_requests attrs =
     List.map_filter parse_request (split_on (CHR '','') (attr attrs ''secrets''))"

text \<open>What the policy of the provider says about a pod and a node of the tree.\<close>

definition entitled :: "('id, 'a) ProviderServer \<Rightarrow> string \<times> string \<Rightarrow> string \<Rightarrow> bool" where
  "entitled sv idn p =
     (case sv_permMgr sv of
        None \<Rightarrow> sv_allowUnauthenticated sv
      | Some pm \<Rightarrow>
          list_ex (\<lambda>pat. in_scope (scope_of pat) (locate p))
            (workload_grants (Some pm) (fst idn) (snd idn)))"

lemma canAccess_entitled: "canAccess sv ns sa p = entitled sv (ns, sa) p"
  using server.allows_scope [of "(sv_permMgr sv, sv_allowUnauthenticated sv, ns, sa)" p]
  by (auto simp: canAccess_def entitled_def list_ex_iff workload_grants_def split: option.splits)

lemma Mount_loads:
  assumes "unmarshal_attrs a = Inr attrs" "identity_ok (pod_identity attrs)" "\<not> isLocked (sv_manager sv)"
    and "LoadAndDecrypt E (sv_manager sv) s = (Inr tree, s')"
  shows "Mount E sv a s =
    (mount_loop (entitled sv (pod_identity attrs)) tree
       (split_on (CHR '','') (attr attrs ''secrets'')) [] [], s')"
  using assms
  by (simp add: Mount_def IsLocked_def identity_ok_def pod_identity_def canAccess_entitled [abs_def])

lemma Mount_okE:
  assumes "Mount E sv a s = (Inr (fs, vs), s')"
  obtains attrs tree where "unmarshal_attrs a = Inr attrs" "identity_ok (pod_identity attrs)"
    "\<not> isLocked (sv_manager sv)" "LoadAndDecrypt E (sv_manager sv) s = (Inr tree, s')"
    "list_all (accepted (entitled sv (pod_identity attrs)) tree) (pod_requests attrs)"
    "fs = map (file_for tree) (pod_requests attrs)" "vs = map version_for (pod_requests attrs)"
proof -
  from assms show ?thesis
  proof (rule MountE)
    fix attrs ns sa tree
    assume *: "unmarshal_attrs a = Inr attrs" "ns = trimSpace (attr attrs ns_attr)" "sa = trimSpace (attr attrs sa_attr)"
      "ns \<noteq> []" "sa \<noteq> []" "\<not> forbidden_in_identity ns" "\<not> forbidden_in_identity sa"
      "\<not> isLocked (sv_manager sv)" "LoadAndDecrypt E (sv_manager sv) s = (Inr tree, s')"
      "mount_loop (canAccess sv ns sa) tree (split_on (CHR '','') (attr attrs ''secrets'')) [] [] = Inr (fs, vs)"
    have "canAccess sv ns sa = entitled sv (pod_identity attrs)"
      using *(2,3) by (auto simp: canAccess_entitled pod_identity_def)
    with that * show thesis
      by (auto simp: mount_loop_ok pod_requests_def identity_ok_def pod_identity_def)
  qed
qed

lemma safe_name:
  "\<not> bad_file_name f \<longleftrightarrow> slash \<notin> set f \<and> backslash \<notin> set f \<and> (f = [] \<or> hd f \<noteq> CHR ''.'')"
  by (cases f) (auto simp: bad_file_name_def containsChar_def hasPrefix_def)

section \<open>Properties\<close>

text \<open>
  (C4) Confinement of a mount: every file a pod gets holds the value of a node of the vault
  that the policy grants to the pod's own namespace and service account, taken from a
  snapshot loaded by an unlocked manager, and its name cannot leave the volume directory.
  Without a permission manager nothing is mounted unless the provider was started to
  allow unauthenticated mounts.
\<close>

theorem Mount_confined:
  assumes "Mount E sv a s = (Inr (fs, vs), s')"
  shows "\<exists>attrs tree. unmarshal_attrs a = Inr attrs \<and> identity_ok (pod_identity attrs) \<and>
    LoadAndDecrypt E (sv_manager sv) s = (Inr tree, s') \<and>
    (\<forall>f \<in> set fs. slash \<notin> set (file_path f) \<and> backslash \<notin> set (file_path f) \<and>
       (file_path f = [] \<or> hd (file_path f) \<noteq> CHR ''.'') \<and>
       (\<exists>p n. map_of (nodes_of tree) p = Some n \<and> file_contents f = Value n \<and>
          entitled sv (pod_identity attrs) p))"
proof -
  from assms obtain attrs tree where *: "unmarshal_attrs a = Inr attrs" "identity_ok (pod_identity attrs)"
    "LoadAndDecrypt E (sv_manager sv) s = (Inr tree, s')"
    and acc: "list_all (accepted (entitled sv (pod_identity attrs)) tree) (pod_requests attrs)"
    and fs: "fs = map (file_for tree) (pod_requests attrs)"
    by (rule Mount_okE)
  have "slash \<notin> set (file_path f) \<and> backslash \<notin> set (file_path f) \<and>
       (file_path f = [] \<or> hd (file_path f) \<noteq> CHR ''.'') \<and>
       (\<exists>p n. map_of (nodes_of tree) p = Some n \<and> file_contents f = Value n \<and>
          entitled sv (pod_identity attrs) p)" if "f \<in> set fs" for f
    using that fs acc unfolding list_all_iff
    by (fastforce simp: accepted_def file_for_def safe_name)
  with * show ?thesis by blast
qed

text \<open>A cluster with one restricted workload, for the witnesses.\<close>

definition web_policy :: perm_tables where
  "web_policy = \<lparr>permissions = [], admins = [], namespacePermissions = [(''prod/web'', [''/db/*''])]\<rparr>"

definition web_server :: "(string, unit) ProviderServer" where
  "web_server = \<lparr>sv_manager = unlocked, sv_permMgr = Some web_policy, sv_allowUnauthenticated = False\<rparr>"

definition web_world :: ref_world where
  "web_world = \<lparr>writes = [(False, sealed [secret_at ''/db/pass'' ''pw'', secret_at ''/admin/key'' ''ak''])],
                script = []\<rparr>"

text \<open>The attributes as the driver sends them, for a list of requests.\<close>

definition web_attrs :: "string \<Rightarrow> string" where
  "web_attrs reqs =
     json_text (JObject [(ns_attr, JString ''prod''), (sa_attr, JString ''web''), (''secrets'', JString reqs)])"

theorem Mount_confined_witness:
  "\<exists>fs vs s' tree. Mount ref_env web_server (web_attrs ''pw=/db/pass'') web_world = (Inr (fs, vs), s') \<and>
     LoadAndDecrypt ref_env unlocked web_world = (Inr tree, s') \<and> map file_contents fs = [''pw''] \<and>
     (\<forall>f \<in> set fs. \<exists>p n. map_of (nodes_of tree) p = Some n \<and> file_contents f = Value n \<and>
        entitled web_server (''prod'', ''web'') p)"
proof -
  have r: "map_sum (\<lambda>e. e) (\<lambda>(fs, vs). map file_contents fs)
      (fst (Mount ref_env web_server (web_attrs ''pw=/db/pass'') web_world)) = Inr [''pw'']"
    and idn: "map_sum (\<lambda>e. e) pod_identity (unmarshal_attrs (web_attrs ''pw=/db/pass'')) = Inr (''prod'', ''web'')"
    by code_simp+
  from r obtain fs vs s' where m: "Mount ref_env web_server (web_attrs ''pw=/db/pass'') web_world = (Inr (fs, vs), s')"
    and c: "map file_contents fs = [''pw'']"
    by (cases "Mount ref_env web_server (web_attrs ''pw=/db/pass'') web_world"; cases "fst (Mount ref_env web_server (web_attrs ''pw=/db/pass'') web_world)") auto
  from Mount_confined [OF m] obtain attrs tree where
    "unmarshal_attrs (web_attrs ''pw=/db/pass'') = Inr attrs" "LoadAndDecrypt ref_env (sv_manager web_server) web_world = (Inr tree, s')"
    "\<forall>f \<in> set fs. \<exists>p n. map_of (nodes_of tree) p = Some n \<and> file_contents f = Value n \<and>
        entitled web_server (pod_identity attrs) p"
    by blast
  moreover from this(1) idn have "pod_identity attrs = (''prod'', ''web'')" by simp
  moreover have "sv_manager web_server = unlocked" by (simp add: web_server_def)
  ultimately show ?thesis using m c by metis
qed

text \<open>
  (C18) The exact result of a mount on an unlocked vault for a pod with a valid identity:
  it succeeds exactly when every parsed request names a safe file and an existing path the
  pod is entitled to, and then returns one file and one version per request, in their
  order; empty and malformed elements of the list are skipped.
\<close>

theorem Mount_exact:
  assumes "unmarshal_attrs a = Inr attrs" "identity_ok (pod_identity attrs)" "\<not> isLocked (sv_manager sv)"
    and "LoadAndDecrypt E (sv_manager sv) s = (Inr tree, s')"
  shows "(if list_all (accepted (entitled sv (pod_identity attrs)) tree) (pod_requests attrs)
          then Mount E sv a s =
            (Inr (map (file_for tree) (pod_requests attrs), map version_for (pod_requests attrs)), s')
          else \<exists>e. Mount E sv a s = (Inl e, s'))"
  using mount_loop_ok [of _ tree _ "[]" "[]"] mount_loop_total [of _ tree _ "[]" "[]"]
  unfolding Mount_loads [OF assms] by (auto simp: pod_requests_def)

text \<open>
  The second request of the witness has an empty file name, which the checks let through.
\<close>

theorem Mount_exact_witness:
  "\<exists>vs s'. Mount ref_env web_server (web_attrs '' pw = /db/pass ,, =db/pass,junk'') web_world =
     (Inr ([\<lparr>file_path = ''pw'', file_mode = 420, file_contents = ''pw''\<rparr>,
            \<lparr>file_path = [], file_mode = 420, file_contents = ''pw''\<rparr>], vs), s')"
proof -
  let ?reqs = "'' pw = /db/pass ,, =db/pass,junk''"
  let ?attrs = "[(ns_attr, ''prod''), (sa_attr, ''web''), (''secrets'', ?reqs)]"
  let ?tree = "\<lparr>Nodes = Some [secret_at ''/admin/key'' ''ak'', secret_at ''/db/pass'' ''pw'']\<rparr>"
  let ?s = "snd (LoadAndDecrypt ref_env unlocked web_world)"
  have idn: "identity_ok (pod_identity ?attrs)"
    and acc: "list_all (accepted (entitled web_server (pod_identity ?attrs)) ?tree) (pod_requests ?attrs)"
    and files: "map (file_for ?tree) (pod_requests ?attrs) =
      [\<lparr>file_path = ''pw'', file_mode = 420, file_contents = ''pw''\<rparr>,
       \<lparr>file_path = [], file_mode = 420, file_contents = ''pw''\<rparr>]"
    and load: "fst (LoadAndDecrypt ref_env unlocked web_world) = Inr ?tree"
    by code_simp+
  have dec: "unmarshal_attrs (web_attrs ?reqs) = Inr ?attrs" by code_simp
  have un: "\<not> isLocked (sv_manager web_server)" and man: "sv_manager web_server = unlocked"
    by (simp_all add: web_server_def unlocked_def)
  from load have ld: "LoadAndDecrypt ref_env (sv_manager web_server) web_world = (Inr ?tree, ?s)"
    unfolding man by (metis prod.collapse)
  from Mount_exact [OF dec idn un ld] acc files show ?thesis by metis
qed

text \<open>
  Secure by default: a provider with no permission manager that was not started to
  allow unauthenticated mounts returns no file to any pod.
\<close>

lemma Mount_without_manager_empty:
  assumes "sv_permMgr sv = None" "\<not> sv_allowUnauthenticated sv"
    and "Mount E sv a s = (Inr (fs, vs), s')"
  shows "fs = [] \<and> vs = []"
proof -
  from assms(3) obtain attrs tree where
    "list_all (accepted (entitled sv (pod_identity attrs)) tree) (pod_requests attrs)"
    and fs: "fs = map (file_for tree) (pod_requests attrs)" "vs = map version_for (pod_requests attrs)"
    by (rule Mount_okE)
  then have "pod_requests attrs = []"
    using assms(1,2) by (cases "pod_requests attrs") (auto simp: accepted_def entitled_def)
  with fs show ?thesis by simp
qed

text \<open>
  No identity is mistaken for another: for pod identities that \<^verbatim>\<open>Mount\<close> accepts, the
  key looked up in the namespace table determines namespace and service account, and it
  is never the bare key of a namespace.
\<close>

lemma pod_identities_unambiguous:
  assumes "identity_ok (ns, sa)" "identity_ok (ns', sa')"
  shows "(ns @ ''/'' @ sa = ns' @ ''/'' @ sa' \<longleftrightarrow> ns = ns' \<and> sa = sa') \<and>
    ns @ ''/'' @ sa \<noteq> ns'"
proof -
  have s: "slash \<notin> set ns" "slash \<notin> set ns'"
    using assms by (auto simp: identity_ok_def dest: identity_chars)
  then have "ns @ ''/'' @ sa \<noteq> ns'" by auto
  with identity_key_inject [OF s] show ?thesis by blast
qed

text \<open>
  The order of the checks: the path is looked up before the policy is asked, so a pod
  whose first request names a path it may not read learns from the error whether that
  path exists in the vault.
\<close>

lemma Mount_denial_reveals_existence:
  assumes "unmarshal_attrs a = Inr attrs" "identity_ok (pod_identity attrs)" "\<not> isLocked (sv_manager sv)"
    and "LoadAndDecrypt E (sv_manager sv) s = (Inr tree, s')"
    and "split_on (CHR '','') (attr attrs ''secrets'') = r # reqs"
    and "parse_request r = Some (f, p)" "\<not> bad_file_name f" "\<not> entitled sv (pod_identity attrs) p"
  shows "Mount E sv a s =
    (Inl (if map_of (nodes_of tree) p = None then PathNotFound p else AccessDenied p), s')"
  using mount_loop_first [where al = "entitled sv (pod_identity attrs)", OF assms(6-8)]
  unfolding Mount_loads [OF assms(1-4)] assms(5) by simp

end
