(* ===== verification/Startup.thy ===== *)
theory Startup
  imports Key_Provider Admin_UI Mount_Properties
begin

text \<open>
  The start of the program (main.go): log level, choice of the Kubernetes client, the key
  of the development mode, the checks that refuse an insecure configuration, and the
  construction of the permission manager, the CSI provider and the web handler. What runs
  after that are the operations of the other theories. The outside is the record
  \<open>platform\<close>: files, cluster, key generation, the SDKs, the decoders, and the build tags.
\<close>

section \<open>Log levels\<close>

text \<open>The levels of \<^verbatim>\<open>log/slog\<close>, ordered by severity.\<close>

datatype slog_level = LevelDebug | LevelInfo | LevelWarn | LevelError

fun severity :: "slog_level \<Rightarrow> int" where
  "severity LevelDebug = -4"
| "severity LevelInfo = 0"
| "severity LevelWarn = 4"
| "severity LevelError = 8"

lemma severity_inject: "severity a = severity b \<longleftrightarrow> a = b"
  by (cases a; cases b) simp_all

instantiation slog_level :: linorder
begin

definition less_eq_slog_level :: "slog_level \<Rightarrow> slog_level \<Rightarrow> bool" where
  "less_eq_slog_level a b \<longleftrightarrow> severity a \<le> severity b"

definition less_slog_level :: "slog_level \<Rightarrow> slog_level \<Rightarrow> bool" where
  "less_slog_level a b \<longleftrightarrow> severity a < severity b"

instance
  by standard (auto simp: less_eq_slog_level_def less_slog_level_def severity_inject)

end

text \<open>
  \<^verbatim>\<open>strings.ToUpper\<close>, as far as a comparison with ASCII words can tell: besides the ASCII
  letters, the dotless i (C4 B1) and the long s (C5 BF) have ASCII upper cases, and no
  other rune has.
\<close>

fun toUpper :: "string \<Rightarrow> string" where
  "toUpper [] = []"
| "toUpper [c] = [ascii_upper c]"
| "toUpper (c # d # s) =
     (if c = CHR 0xC4 \<and> d = CHR 0xB1 then CHR ''I'' # toUpper s
      else if c = CHR 0xC5 \<and> d = CHR 0xBF then CHR ''S'' # toUpper s
      else ascii_upper c # toUpper (d # s))"

definition slogLevel :: "string \<Rightarrow> string + slog_level" where
  "slogLevel level =
     (let l = toUpper level
      in if l = ''DEBUG'' then Inr LevelDebug
         else if l = ''INFO'' then Inr LevelInfo
         else if l = ''WARN'' \<or> l = ''WARNING'' then Inr LevelWarn
         else if l = ''ERROR'' then Inr LevelError
         else Inl (''unknown log level '' @ level))"

section \<open>The outside\<close>

text \<open>
  A Kubernetes client is applied to the namespace and the name of the Secret. \<open>pf_cluster\<close>
  is \<^verbatim>\<open>rest.InClusterConfig\<close> with \<^verbatim>\<open>kubernetes.NewForConfig\<close>, \<open>pf_generate\<close> is
  \<^verbatim>\<open>age.GenerateX25519Identity\<close>, \<open>pf_discover\<close> is \<^verbatim>\<open>oidc.NewProvider\<close>.
\<close>

record ('s, 'id, 'n) platform =
  pf_readFile :: "string \<Rightarrow> string + bytes"
  pf_cluster :: "'s \<Rightarrow> (string + (string \<Rightarrow> string \<Rightarrow> ('s, 'id) vault_env)) \<times> 's"
  pf_fake :: "string \<Rightarrow> string \<Rightarrow> ('s, 'id) vault_env"
  pf_generate :: "'s \<Rightarrow> (string + string) \<times> 's"
  pf_gcpkms_tag :: bool
  pf_kms_tag :: bool
  pf_sdk :: "'s kms_sdk"
  pf_pem :: pem_lib
  pf_yaml :: "'n yaml"
  pf_discover :: "string \<Rightarrow> 's \<Rightarrow> (string + string) \<times> 's"
  pf_provider_text :: "provider_error \<Rightarrow> string"
  pf_auth :: "'s auth_lib"
  pf_ui_text :: "ui_failure \<Rightarrow> string"
  pf_origin_host :: "string \<Rightarrow> string option"
  pf_origin_ok :: "string \<Rightarrow> bool"

datatype exit_reason =
    SecretsUnresolved string string
  | InvalidLogLevel string
  | NoClient string
  | KeyGenerationFailed string
  | PermConfigRequired
  | AdminValueRequired
  | PermissionsFailed new_error

section \<open>The steps of main\<close>

definition open_client ::
    "('s, 'id, 'n) platform \<Rightarrow> Config \<Rightarrow> 's \<Rightarrow> (exit_reason + ('s, 'id) vault_env) \<times> 's" where
  "open_client P cfg s =
     (if DevMode cfg then (Inr (pf_fake P (VaultNamespace cfg) (VaultSecretName cfg)), s)
      else (case pf_cluster P s of
              (Inl err, s1) \<Rightarrow> (Inl (NoClient err), s1)
            | (Inr client, s1) \<Rightarrow> (Inr (client (VaultNamespace cfg) (VaultSecretName cfg)), s1)))"

text \<open>The throwaway key of the development mode.\<close>

definition dev_master_key ::
    "('s, 'id, 'n) platform \<Rightarrow> Config \<Rightarrow> 's \<Rightarrow> (exit_reason + Config) \<times> 's" where
  "dev_master_key P cfg s =
     (if DevMode cfg \<and> MasterKey cfg = [] \<and> KMSCiphertext cfg = [] \<and> GCPKMSCiphertext cfg = [] then
        (case pf_generate P s of
           (Inl err, s1) \<Rightarrow> (Inl (KeyGenerationFailed err), s1)
         | (Inr key, s1) \<Rightarrow> (Inr (cfg\<lparr>MasterKey := key\<rparr>), s1))
      else (Inr cfg, s))"

definition key_config :: "Config \<Rightarrow> JWTKeyConfig" where
  "key_config cfg =
     \<lparr>PublicKeyPEM = JWTPublicKey cfg, JWKSURL = JWTJWKSURL cfg, JWKSJSON = JWTJWKS cfg,
      RefreshInterval = JWTJWKSRefreshInterval cfg, cfg_Audience = JWTAudience cfg,
      cfg_Issuer = JWTIssuer cfg\<rparr>"

text \<open>A failing discovery only disables the UserInfo path.\<close>

definition open_permissions ::
    "('s, 'id, 'n) platform \<Rightarrow> Config \<Rightarrow> 's \<Rightarrow> (exit_reason + PermissionManager option) \<times> 's" where
  "open_permissions P cfg s =
     (if PermConfigPath cfg = [] then (Inr None, s)
      else (case NewPermissionManagerWithJWTConfig (pf_pem P) (pf_yaml P) (pf_readFile P)
                   (PermConfigPath cfg) (key_config cfg) (JWTUserClaim cfg) of
              Inl e \<Rightarrow> (Inl (PermissionsFailed e), s)
            | Inr pm \<Rightarrow>
                if JWTIssuer cfg = [] then (Inr (Some pm), s)
                else (case pf_discover P (JWTIssuer cfg) s of
                        (Inl err, s1) \<Rightarrow> (Inr (Some pm), s1)
                      | (Inr provider, s1) \<Rightarrow>
                          (Inr (Some (EnableUserInfoAuth pm provider (OAuthUserInfoCacheTTL cfg))), s1))))"

text \<open>
  What is running when \<^verbatim>\<open>main\<close> waits: the CSI provider, the web handler (or the error that
  its server ends with), and the managers they share. The provider's manager is a copy of
  \<open>rn_manager\<close>, which the code shares by a pointer.
\<close>

record ('s, 'id) running =
  rn_level :: slog_level
  rn_vault :: "('s, 'id) vault_env"
  rn_manager :: "'id VaultManager"
  rn_permMgr :: "PermissionManager option"
  rn_provider :: "('id, \<lparr>pm_configPath :: string, pm_keyfunc :: keyfunc option, pm_policy :: claim_policy,
    pm_oidcProvider :: string option, pm_userInfoCache :: userInfoCache\<rparr>) ProviderServer"
  rn_handler :: "string + (http_request \<Rightarrow> PermissionManager option \<Rightarrow> 'id VaultManager \<Rightarrow> 's \<Rightarrow>
    http_reply \<times> PermissionManager option \<times> 'id VaultManager \<times> 's)"

definition web_config :: "Config \<Rightarrow> ui_config" where
  "web_config cfg =
     \<lparr>hc_trusted = CSRFTrustedOrigins cfg,
      hc_headers = \<lparr>ah_user = JWTUserHeader cfg, ah_admin = JWTAdminHeader cfg, ah_adminValue = JWTAdminValue cfg\<rparr>,
      hc_DevMode = DevMode cfg\<rparr>"

definition serve ::
    "('s, 'id, 'n) platform \<Rightarrow> Config \<Rightarrow> slog_level \<Rightarrow> ('s, 'id) vault_env \<Rightarrow> 'id VaultManager \<Rightarrow>
     PermissionManager option \<Rightarrow> ('s, 'id) running" where
  "serve P cfg level E m pmo =
     \<lparr>rn_level = level, rn_vault = E, rn_manager = m, rn_permMgr = pmo,
      rn_provider = \<lparr>sv_manager = m, sv_permMgr = pmo, sv_allowUnauthenticated = DevMode cfg\<rparr>,
      rn_handler = newAdminHandler (pf_auth P) \<lparr>ue_vault = E, ue_text = pf_ui_text P\<rparr>
        (pf_origin_host P) (pf_origin_ok P) (web_config cfg)\<rparr>"

text \<open>The two checks of the configuration.\<close>

definition insecure :: "Config \<Rightarrow> exit_reason option" where
  "insecure cfg =
     (if PermConfigPath cfg = [] \<and> \<not> DevMode cfg then Some PermConfigRequired
      else if JWTAdminHeader cfg \<noteq> [] \<and> JWTAdminValue cfg = [] then Some AdminValueRequired
      else None)"

definition start_vault ::
    "('s, 'id, 'n) platform \<Rightarrow> Config \<Rightarrow> ('s, 'id) vault_env \<Rightarrow> 's \<Rightarrow> 'id VaultManager \<times> 's" where
  "start_vault P cfg E s =
     (case resolveKeyProvider (keyProviders (pf_gcpkms_tag P) (pf_kms_tag P) (pf_sdk P)) cfg s of
        (provider, s1) \<Rightarrow>
          NewVaultManager E (Some (as_key_source (pf_provider_text P) (GetMasterKey provider))) s1)"

definition main ::
    "('s, 'id, 'n) platform \<Rightarrow> Config \<Rightarrow> 's \<Rightarrow> (exit_reason + ('s, 'id) running) \<times> 's" where
  "main P cfg0 s =
     (case ResolveSecrets (pf_readFile P) cfg0 of
        (Some (name, err), cfg) \<Rightarrow> (Inl (SecretsUnresolved name err), s)
      | (None, cfg) \<Rightarrow>
          (case slogLevel (LogLevel cfg) of
             Inl err \<Rightarrow> (Inl (InvalidLogLevel err), s)
           | Inr level \<Rightarrow>
               (case open_client P cfg s of
                  (Inl e, s1) \<Rightarrow> (Inl e, s1)
                | (Inr E, s1) \<Rightarrow>
                    (case dev_master_key P cfg s1 of
                       (Inl e, s2) \<Rightarrow> (Inl e, s2)
                     | (Inr cfg2, s2) \<Rightarrow>
                         (case start_vault P cfg2 E s2 of
                            (m, s3) \<Rightarrow>
                              (case insecure cfg2 of
                                 Some e \<Rightarrow> (Inl e, s3)
                               | None \<Rightarrow>
                                   (case open_permissions P cfg2 s3 of
                                      (Inl e, s4) \<Rightarrow> (Inl e, s4)
                                    | (Inr pmo, s4) \<Rightarrow> (Inr (serve P cfg2 level E m pmo), s4))))))))"

end
