(* ===== verification/Service.thy ===== *)
theory Service
  imports Admin_Properties Mount_Properties
begin

text \<open>
  The running service: the CSI provider, the web handler and the permission watcher over
  the managers they share, as a labelled step relation. A step is a whole call; other
  writers of the Secret act between the calls to the API server inside a step (see
  Vault_World) as well as in steps of their own. Calls of \<^verbatim>\<open>Unlock\<close> that overlap are the
  subject of Unlock_Race.
\<close>

section \<open>The system\<close>

text \<open>
  What does not change while the service runs: the libraries and the settings of the web
  handler, the decoder of mount attributes, and the YAML library.
\<close>

record ('s, 'id, 'n) deployment =
  dp_auth :: "'s auth_lib"
  dp_ui :: "('s, 'id) ui_env"
  dp_origin_host :: "string \<Rightarrow> string option"
  dp_trusted :: "string list"
  dp_headers :: auth_headers
  dp_dev :: bool
  dp_yaml :: "'n yaml"

text \<open>
  What changes. \<open>sr_document\<close> is a history variable: the last document that the tables
  were loaded from.
\<close>

record ('s, 'id) service =
  sr_manager :: "'id VaultManager"
  sr_permMgr :: "PermissionManager option"
  sr_world :: 's
  sr_document :: bytes

datatype service_event =
    MountCall string
  | WebCall http_request
  | Reload "string + bytes"
  | OthersAct

definition mount_call ::
    "('s, 'id, 'n) deployment \<Rightarrow> string \<Rightarrow> ('s, 'id) service \<Rightarrow>
     (mount_error + mount_file list \<times> object_version list) \<times> 's" where
  "mount_call D a s =
     Mount (ue_vault (dp_ui D))
       \<lparr>sv_manager = sr_manager s, sv_permMgr = sr_permMgr s, sv_allowUnauthenticated = dp_dev D\<rparr>
       a (sr_world s)"

definition web_call ::
    "('s, 'id, 'n) deployment \<Rightarrow> http_request \<Rightarrow> ('s, 'id) service \<Rightarrow>
     http_reply \<times> PermissionManager option \<times> 'id VaultManager \<times> 's" where
  "web_call D r s =
     admin_request (dp_auth D) (dp_ui D) (dp_origin_host D) (dp_trusted D) (dp_headers D) (dp_dev D) r
       (sr_permMgr s) (sr_manager s) (sr_world s)"

text \<open>A reload by the watcher; the document counts as loaded from once it has been parsed.\<close>

definition reload :: "'n yaml \<Rightarrow> string + bytes \<Rightarrow> ('s, 'id) service \<Rightarrow> ('s, 'id) service" where
  "reload Y contents s =
     s\<lparr>sr_permMgr := map_option (\<lambda>pm. snd (Load Y contents pm)) (sr_permMgr s),
       sr_document := (case contents of
          Inl err \<Rightarrow> sr_document s
        | Inr data \<Rightarrow> if isl (yaml_parse Y data) then sr_document s else data)\<rparr>"

inductive service_step ::
    "('s, 'id, 'n) deployment \<Rightarrow> ('s \<Rightarrow> commit list) \<Rightarrow> ('s, 'id) service \<Rightarrow> service_event \<Rightarrow>
     ('s, 'id) service \<Rightarrow> bool"
  for D :: "('s, 'id, 'n) deployment" and hist :: "'s \<Rightarrow> commit list" where
  mount: "mount_call D a s = (res, w) \<Longrightarrow> service_step D hist s (MountCall a) (s\<lparr>sr_world := w\<rparr>)"
| web: "web_call D r s = (rep, pmo, m, w) \<Longrightarrow>
    service_step D hist s (WebCall r) (s\<lparr>sr_permMgr := pmo, sr_manager := m, sr_world := w\<rparr>)"
| reloads: "service_step D hist s (Reload contents) (reload (dp_yaml D) contents s)"
| others: "moved (hist (sr_world s)) (hist w) \<Longrightarrow> service_step D hist s OthersAct (s\<lparr>sr_world := w\<rparr>)"

inductive service_run ::
    "('s, 'id, 'n) deployment \<Rightarrow> ('s \<Rightarrow> commit list) \<Rightarrow> ('s, 'id) service \<Rightarrow> service_event list \<Rightarrow>
     ('s, 'id) service \<Rightarrow> bool"
  for D :: "('s, 'id, 'n) deployment" and hist :: "'s \<Rightarrow> commit list" where
  stop: "service_run D hist s [] s"
| go: "service_step D hist s e s1 \<Longrightarrow> service_run D hist s1 es s2 \<Longrightarrow> service_run D hist s (e # es) s2"

inductive_cases service_stepE: "service_step D hist s e s'"

inductive_simps service_run_Nil [simp]: "service_run D hist s [] s'"
inductive_simps service_run_Cons [simp]: "service_run D hist s (e # es) s'"

lemma service_run_append:
  "service_run D hist s (es @ fs) s'' \<longleftrightarrow>
     (\<exists>s'. service_run D hist s es s' \<and> service_run D hist s' fs s'')"
  by (induction es arbitrary: s) auto

section \<open>The invariant of the service\<close>

text \<open>
  The tables agree with the last document: no user has a pattern that the document does
  not give, and the namespace table is that of the document, or empty after a load that
  failed before reaching it.
\<close>

definition grants_from :: "'n yaml \<Rightarrow> bytes \<Rightarrow> 'a perm_tables_scheme \<Rightarrow> bool" where
  "grants_from Y data pm \<longleftrightarrow>
     (\<exists>raw. yaml_parse Y data = Inr raw \<and>
        (\<forall>u ps. map_of (permissions pm) u = Some ps \<longrightarrow> doc_user Y raw u = Some ps) \<and>
        ((\<forall>k. map_of (namespacePermissions pm) k = doc_namespace Y raw k) \<or> namespacePermissions pm = []))"

lemma Load_grants_from:
  assumes "yaml_decoder Y" "grants_from Y old pm" "Load Y contents pm = (err, pm')"
  shows "grants_from Y (case contents of Inl e \<Rightarrow> old
    | Inr data \<Rightarrow> if isl (yaml_parse Y data) then old else data) pm'"
proof (cases contents)
  case (Inl e)
  with assms(2,3) show ?thesis by (simp add: Load_def)
next
  case data: (Inr data)
  show ?thesis
  proof (cases "yaml_parse Y data")
    case (Inl e)
    with assms(2,3) data show ?thesis by (simp add: Load_def)
  next
    case (Inr raw)
    note l = Load_sections [OF assms(1) assms(3) [unfolded data] Inr]
    from yaml_decoder.load_sound(1) [OF assms(1) l] yaml_decoder.load_namespaces [OF assms(1) l] Inr data
    show ?thesis by (auto simp: grants_from_def)
  qed
qed

lemma grants_from_same: "same_policy pm pm' \<Longrightarrow> grants_from Y d pm' = grants_from Y d pm"
  by (simp add: grants_from_def same_policy_def)

lemma pm_ok_more:
  "perm_tables.more pm' = perm_tables.more pm \<Longrightarrow> pm_ok L genuine identified pm' = pm_ok L genuine identified pm"
  by (cases pm; cases pm') (simp add: pm_ok_def)

text \<open>\<open>service_ok\<close> holds of a service with a permission manager, that is, not of an open one.\<close>

definition service_ok ::
    "('s, 'id, 'n) deployment \<Rightarrow> (string \<Rightarrow> rsa_key \<Rightarrow> bool) \<Rightarrow> (string \<Rightarrow> claims \<Rightarrow> int \<Rightarrow> bool) \<Rightarrow>
     ('s, 'id) service \<Rightarrow> bool" where
  "service_ok D genuine identified s \<longleftrightarrow>
     vm_ok (sr_manager s) \<and>
     (\<exists>pm. sr_permMgr s = Some pm \<and> pm_ok (dp_auth D) genuine identified pm \<and>
        grants_from (dp_yaml D) (sr_document s) pm)"

lemma mux_vm_ok: "mux U up r m s = (resp, m', s') \<Longrightarrow> vm_ok m \<Longrightarrow> vm_ok m'"
proof (cases "m' = m")
  case False
  assume "mux U up r m s = (resp, m', s')" "vm_ok m"
  with False mux_manager [of U up r m s resp m' s'] have "unlock_handler U up r m s = (resp, m', s')" by blast
  with \<open>vm_ok m\<close> show ?thesis
    by (auto simp: unlock_handler_def split: if_splits option.splits prod.splits vault_error.splits
        dest: vm_ok_Unlock)
qed simp

lemma web_call_keeps:
  assumes "web_call D r s = (rep, pmo, m, w)"
    and "token_library (dp_auth D) genuine verifies unexpired identified"
    and "service_ok D genuine identified s"
  shows "service_ok D genuine identified (s\<lparr>sr_permMgr := pmo, sr_manager := m, sr_world := w\<rparr>)"
proof -
  from assms(3) obtain pm where ok: "vm_ok (sr_manager s)" "sr_permMgr s = Some pm"
    "pm_ok (dp_auth D) genuine identified pm" "grants_from (dp_yaml D) (sr_document s) pm"
    by (auto simp: service_ok_def)
  from assms(1) have "vm_ok m"
    by (auto simp: web_call_def admin_request_def withFrameDenial_def
        split: if_splits prod.splits auth_result.splits intro: mux_vm_ok ok(1))
  moreover from assms(1) have "pmo = sr_permMgr s \<or>
      (\<exists>a w1. withAuth (dp_auth D) (dp_headers D) (dp_dev D) (Some pm) r (sr_world s) = (a, pmo, w1))"
    by (auto simp: web_call_def admin_request_def withFrameDenial_def ok(2)
        split: if_splits prod.splits auth_result.splits)
  then have "\<exists>pm'. pmo = Some pm' \<and> pm_ok (dp_auth D) genuine identified pm' \<and> same_policy pm pm'"
  proof (elim disjE exE)
    assume "pmo = sr_permMgr s"
    with ok(2,3) show ?thesis by simp
  qed (rule withAuth_keeps [OF assms(2) ok(3)])
  ultimately show ?thesis
    using ok(4) by (auto simp: service_ok_def grants_from_same)
qed

lemma reload_keeps:
  assumes "yaml_decoder (dp_yaml D)" "service_ok D genuine identified s"
  shows "service_ok D genuine identified (reload (dp_yaml D) contents s)"
proof -
  from assms(2) obtain pm where ok: "vm_ok (sr_manager s)" "sr_permMgr s = Some pm"
    "pm_ok (dp_auth D) genuine identified pm" "grants_from (dp_yaml D) (sr_document s) pm"
    by (auto simp: service_ok_def)
  obtain err pm' where l: "Load (dp_yaml D) contents pm = (err, pm')" by fastforce
  have "pm_ok (dp_auth D) genuine identified pm'"
    using pm_ok_more load_more [of "dp_yaml D" contents pm] ok(3) l by (metis snd_conv)
  with Load_grants_from [OF assms(1) ok(4) l] ok l show ?thesis
    by (simp add: service_ok_def reload_def)
qed

lemma service_step_ok:
  assumes "service_step D hist s e s'" "service_ok D genuine identified s"
    and "token_library (dp_auth D) genuine verifies unexpired identified" "yaml_decoder (dp_yaml D)"
  shows "service_ok D genuine identified s'"
  using assms
proof (cases rule: service_step.cases)
  case (web r rep pmo m w)
  from web_call_keeps [OF web(3) assms(3,2)] web(2) show ?thesis by simp
next
  case (reloads contents)
  from reload_keeps [OF assms(4,2)] reloads show ?thesis by simp
qed (simp_all add: service_ok_def)

lemma service_run_ok:
  "service_run D hist s es s' \<Longrightarrow> service_ok D genuine identified s \<Longrightarrow>
   token_library (dp_auth D) genuine verifies unexpired identified \<Longrightarrow> yaml_decoder (dp_yaml D) \<Longrightarrow>
   service_ok D genuine identified s'"
  by (induction rule: service_run.induct) (auto intro: service_step_ok)

section \<open>What the steps do to the Secret and to the key\<close>

definition writing :: "http_request \<Rightarrow> bool" where
  "writing r \<longleftrightarrow> rq_method r = ''POST'' \<and> (rq_path r = ''/update'' \<or> rq_path r = ''/delete'')"

fun write_event :: "service_event \<Rightarrow> bool" where
  "write_event (WebCall r) = writing r"
| "write_event _ = False"

text \<open>A request that the service had reason to write for, in the state it came in.\<close>

definition write_allowed :: "('s, 'id, 'n) deployment \<Rightarrow> ('s, 'id) service \<Rightarrow> service_event \<Rightarrow> bool" where
  "write_allowed D s e \<longleftrightarrow>
     (\<exists>r up pmo w. e = WebCall r \<and> writing r \<and> cross_origin_ok (dp_origin_host D) (dp_trusted D) r \<and>
        withAuth (dp_auth D) (dp_headers D) (dp_dev D) (sr_permMgr s) r (sr_world s) = (Forward up, pmo, w) \<and>
        (update_checked up r \<or> delete_checked up r))"

lemma Mount_moves:
  assumes "web_service U hist L" "Mount (ue_vault U) sv a s = (res, s')"
  shows "moved (hist s) (hist s')"
  using assms(2) web_service.load_moves [OF assms(1)]
  by (auto simp: Mount_def Let_def split: if_splits sum.splits prod.splits)

lemma service_step_hist:
  assumes "web_service (dp_ui D) hist (dp_auth D)" "service_step D hist s e s'"
  shows "moved (hist (sr_world s)) (hist (sr_world s')) \<or>
    write_allowed D s e \<and> at_most_one (hist (sr_world s)) (hist (sr_world s'))"
  using assms(2)
proof (cases rule: service_step.cases)
  case (mount a res w)
  from Mount_moves [OF assms(1) mount(3) [unfolded mount_call_def]] mount(2) show ?thesis by simp
next
  case (web r rep pmo m w)
  note req = web(3) [unfolded web_call_def]
  show ?thesis
  proof (cases "moved (hist (sr_world s)) (hist w)")
    case False
    from admin_request_cases [OF req] have "at_most_one (hist (sr_world s)) (hist w)"
      by (auto dest!: web_service.withAuth_moves [OF assms(1)] web_service.mux_once [OF assms(1)]
          intro: moved_at_most_one at_most_one_after)
    moreover from write_by_permission [OF assms(1) req False] have "write_allowed D s e"
      using web(1) by (auto simp: write_allowed_def writing_def update_checked_def delete_checked_def)
    ultimately show ?thesis using web by simp
  qed (use web in simp)
qed (auto simp: reload_def)

end
