(* ===== verification/Service_Properties.thy ===== *)
theory Service_Properties
  imports Service
begin

text \<open>
  What holds of every run of the service, whatever calls, reloads and foreign writes it
  consists of: who causes a change of the stored vault and of the key, how many commits a
  run makes, and what a mount returns.
\<close>

section \<open>Runs\<close>

text \<open>A first step of a run that does something which waiting does not do.\<close>

lemma service_run_first:
  assumes "service_run D hist s es s'" "\<not> Q s s'"
    and "\<And>t. Q t t" "\<And>t t' t''. Q t t' \<Longrightarrow> Q t' t'' \<Longrightarrow> Q t t''"
  shows "\<exists>es1 e es2 t t'. es = es1 @ e # es2 \<and> service_run D hist s es1 t \<and>
    service_step D hist t e t' \<and> service_run D hist t' es2 s' \<and> Q s t \<and> \<not> Q t t'"
  using assms(1,2)
proof (induction rule: service_run.induct)
  case (go s e s1 es s2)
  show ?case
  proof (cases "Q s s1")
    case True
    then have "\<not> Q s1 s2" using go.prems assms(4) by blast
    then obtain es1 e' es2 t t' where *: "es = es1 @ e' # es2" "service_run D hist s1 es1 t"
      "service_step D hist t e' t'" "service_run D hist t' es2 s2" "Q s1 t" "\<not> Q t t'"
      using go.IH by blast
    have "e # es = (e # es1) @ e' # es2" "service_run D hist s (e # es1) t" "Q s t"
      using * True assms(4) go.hyps(1) by auto
    with * show ?thesis by blast
  next
    case False
    with go.hyps assms(3) show ?thesis
      by (metis append_Nil service_run.stop)
  qed
qed (use assms(3) in blast)

lemma service_run_ours:
  assumes "service_run D hist s es s'" "web_service (dp_ui D) hist (dp_auth D)"
  shows "ours (hist (sr_world s')) \<le> ours (hist (sr_world s)) + length (filter write_event es)"
  using assms(1)
proof (induction rule: service_run.induct)
  case (go s e s1 es s2)
  have "ours (hist (sr_world s1)) \<le> ours (hist (sr_world s)) + (if write_event e then 1 else 0)"
    using service_step_hist [OF assms(2) go.hyps(1)]
    by (auto simp: write_allowed_def dest: moved_ours at_most_one_ours)
  with go.IH show ?case by (auto split: if_splits)
qed simp

text \<open>The key: a step that changes the manager is an admin's unlock request.\<close>

definition unlock_allowed :: "('s, 'id, 'n) deployment \<Rightarrow> ('s, 'id) service \<Rightarrow> service_event \<Rightarrow> 'id \<Rightarrow> bool" where
  "unlock_allowed D s e i \<longleftrightarrow>
     (\<exists>r up pmo w. e = WebCall r \<and> rq_path r = ''/unlock'' \<and> rq_method r = ''POST'' \<and>
        cross_origin_ok (dp_origin_host D) (dp_trusted D) r \<and>
        withAuth (dp_auth D) (dp_headers D) (dp_dev D) (sr_permMgr s) r (sr_world s) = (Forward up, pmo, w) \<and>
        (case up of None \<Rightarrow> sr_permMgr s = None \<and> dp_dev D | Some u \<Rightarrow> isAdmin u) \<and>
        parse_master_key (ue_vault (dp_ui D)) (rq_form r ''master_key'') = Inr i)"

lemma service_step_manager:
  assumes "service_step D hist s e s'" "sr_manager s' \<noteq> sr_manager s"
  shows "isLocked (sr_manager s) \<and>
    (\<exists>i. unlock_allowed D s e i \<and> sr_manager s' = (sr_manager s)\<lparr>identity := Some i, isLocked := False\<rparr>)"
  using assms(1)
proof (cases rule: service_step.cases)
  case (web r rep pmo m w)
  with assms(2) unlock_by_admin [OF web(3) [unfolded web_call_def]] show ?thesis
    by (auto simp: unlock_allowed_def)
qed (use assms(2) in \<open>auto simp: reload_def\<close>)

lemma service_run_unlocked:
  "service_run D hist s es s' \<Longrightarrow> \<not> isLocked (sr_manager s) \<Longrightarrow> sr_manager s' = sr_manager s"
  by (induction rule: service_run.induct) (metis service_step_manager)+

section \<open>What a document grants\<close>

definition document_grants :: "'n yaml \<Rightarrow> (string, 'n) gomap \<Rightarrow> string \<times> string \<Rightarrow> string \<Rightarrow> bool" where
  "document_grants Y raw idn p \<longleftrightarrow>
     (case doc_namespace Y raw (fst idn @ ''/'' @ snd idn) of
        Some ps \<Rightarrow> list_ex (\<lambda>pat. in_scope (scope_of pat) (locate p)) ps
      | None \<Rightarrow>
          (case doc_namespace Y raw (fst idn) of
             Some ps \<Rightarrow> list_ex (\<lambda>pat. in_scope (scope_of pat) (locate p)) ps
           | None \<Rightarrow> False))"

lemma entitled_document:
  assumes "entitled sv idn p" "sv_permMgr sv = Some pm"
    and "(\<forall>k. map_of (namespacePermissions pm) k = doc_namespace Y raw k) \<or> namespacePermissions pm = []"
  shows "document_grants Y raw idn p"
  using assms by (auto simp: entitled_def document_grants_def workload_grants_def split: option.splits)

lemma service_mount:
  assumes "service_ok D genuine identified s" "mount_call D a s = (Inr (fs, vs), w)"
  shows "\<exists>raw attrs tree. yaml_parse (dp_yaml D) (sr_document s) = Inr raw \<and> unmarshal_attrs a = Inr attrs \<and>
    identity_ok (pod_identity attrs) \<and>
    LoadAndDecrypt (ue_vault (dp_ui D)) (sr_manager s) (sr_world s) = (Inr tree, w) \<and>
    fs = map (file_for tree) (pod_requests attrs) \<and>
    list_all (\<lambda>(f, p). \<not> bad_file_name f \<and> document_grants (dp_yaml D) raw (pod_identity attrs) p) (pod_requests attrs)"
proof -
  let ?sv = "\<lparr>sv_manager = sr_manager s, sv_permMgr = sr_permMgr s, sv_allowUnauthenticated = dp_dev D\<rparr>"
  from assms(1) obtain pm raw where pm: "sr_permMgr s = Some pm"
    and raw: "yaml_parse (dp_yaml D) (sr_document s) = Inr raw"
    and ns: "(\<forall>k. map_of (namespacePermissions pm) k = doc_namespace (dp_yaml D) raw k) \<or> namespacePermissions pm = []"
    by (auto simp: service_ok_def grants_from_def)
  from assms(2) obtain attrs tree where m: "unmarshal_attrs a = Inr attrs" "identity_ok (pod_identity attrs)"
    "LoadAndDecrypt (ue_vault (dp_ui D)) (sr_manager s) (sr_world s) = (Inr tree, w)"
    "list_all (accepted (entitled ?sv (pod_identity attrs)) tree) (pod_requests attrs)"
    "fs = map (file_for tree) (pod_requests attrs)"
    unfolding mount_call_def by (auto elim: Mount_okE)
  have "list_all (\<lambda>(f, p). \<not> bad_file_name f \<and> document_grants (dp_yaml D) raw (pod_identity attrs) p) (pod_requests attrs)"
  proof (rule list.pred_mono_strong [OF m(4)])
    fix fp
    assume "accepted (entitled ?sv (pod_identity attrs)) tree fp"
    then show "case fp of (f, p) \<Rightarrow> \<not> bad_file_name f \<and> document_grants (dp_yaml D) raw (pod_identity attrs) p"
      using entitled_document [where sv = ?sv and pm = pm, OF _ _ ns] pm
      by (cases fp) (simp add: accepted_def)
  qed
  with raw m show ?thesis by blast
qed

section \<open>A reference deployment\<close>

definition site_deployment :: "(ref_world \<times> ref_net, string, ref_node) deployment" where
  "site_deployment =
     \<lparr>dp_auth = site_lib, dp_ui = site_ui, dp_origin_host = (\<lambda>x. None), dp_trusted = [],
      dp_headers = proxy_headers, dp_dev = False,
      dp_yaml = ref_yaml [(''v2'', ops_doc)]\<rparr>"

definition site_service :: "(ref_world \<times> ref_net, string) service" where
  "site_service =
     \<lparr>sr_manager = locked_manager, sr_permMgr = Some plain_manager, sr_world = site_start, sr_document = ''v2''\<rparr>"

definition admin_unlocks :: http_request where
  "admin_unlocks = post ''/unlock'' [(''master_key'', ''k'')] ''root''"

definition ann_writes :: http_request where
  "ann_writes = post ''/update'' [(''path'', ''app/b''), (''value'', ''2'')] ''ann''"

text \<open>The state after an event of each kind.\<close>

definition after_web :: "('s, 'id, 'n) deployment \<Rightarrow> http_request \<Rightarrow> ('s, 'id) service \<Rightarrow> ('s, 'id) service" where
  "after_web D r s =
     (case web_call D r s of (rep, pmo, m, w) \<Rightarrow> s\<lparr>sr_permMgr := pmo, sr_manager := m, sr_world := w\<rparr>)"

lemma step_after_web: "service_step D hist s (WebCall r) (after_web D r s)"
  by (cases "web_call D r s") (auto simp: after_web_def intro: service_step.web)

definition unlocked_site :: "(ref_world \<times> ref_net, string) service" where
  "unlocked_site = after_web site_deployment admin_unlocks site_service"

definition written_site :: "(ref_world \<times> ref_net, string) service" where
  "written_site = after_web site_deployment ann_writes unlocked_site"

lemma site_run:
  "service_run site_deployment hist site_service [WebCall admin_unlocks] unlocked_site"
  "service_run site_deployment hist unlocked_site [WebCall ann_writes] written_site"
  "service_run site_deployment hist site_service [WebCall admin_unlocks, WebCall ann_writes] written_site"
  unfolding written_site_def unlocked_site_def
  by (auto intro: step_after_web)

lemma site_facts:
  "ours (site_hist (sr_world site_service)) = 0" "ours (site_hist (sr_world written_site)) = 1"
  "\<not> isLocked (sr_manager unlocked_site)" "isLocked (sr_manager site_service)"
  by code_simp+

lemmas site_web_service = site.web_service_axioms

text \<open>The token libraries of the site accept nothing, so they are sound.\<close>

interpretation site_tokens: token_library site_lib "\<lambda>_ _. False" "\<lambda>_ _ _ _. False" "\<lambda>_ _. False" "\<lambda>_ _ _. False"
  by unfold_locales (auto simp: site_lib_def)

lemmas site_token_library = site_tokens.token_library_axioms

section \<open>Properties\<close>

text \<open>
  (C5) Who changes the vault: if, over a run of mounts, web requests, reloads and foreign
  writes in any order, the stored Secret changed by more than foreign writes, then one of
  the events is a POST to a writing route which, in the state it came in, passed the
  cross-origin check and was authenticated as a user who may write the path.
\<close>

theorem service_writes_authorised:
  assumes "web_service (dp_ui D) hist (dp_auth D)" and "service_run D hist s es s'"
    and "\<not> moved (hist (sr_world s)) (hist (sr_world s'))"
  shows "\<exists>es1 e es2 t. es = es1 @ e # es2 \<and> service_run D hist s es1 t \<and> write_allowed D t e"
proof -
  from service_run_first [where Q = "\<lambda>t t'. moved (hist (sr_world t)) (hist (sr_world t'))", OF assms(2,3)]
  obtain es1 e es2 t t' where *: "es = es1 @ e # es2" "service_run D hist s es1 t"
    "service_step D hist t e t'" "\<not> moved (hist (sr_world t)) (hist (sr_world t'))"
    by (blast intro: moved_trans)
  with service_step_hist [OF assms(1) *(3)] show ?thesis by blast
qed

theorem service_writes_authorised_witness:
  "\<exists>es1 e es2 t. [WebCall admin_unlocks, WebCall ann_writes] = es1 @ e # es2 \<and>
     service_run site_deployment site_hist site_service es1 t \<and> write_allowed site_deployment t e"
proof -
  have D: "dp_ui site_deployment = site_ui" "dp_auth site_deployment = site_lib"
    by (simp_all add: site_deployment_def)
  have "\<not> moved (site_hist (sr_world site_service)) (site_hist (sr_world written_site))"
    using site_facts(1,2) by (auto dest: moved_ours)
  from service_writes_authorised [OF _ site_run(3) this, unfolded D, OF site_web_service] show ?thesis .
qed

text \<open>
  (C19) A bound on the writes: a run commits at most as often as it has POST requests to the
  writing routes, whatever is retried, lost in races or answered with a server error.
\<close>

theorem service_commit_bound:
  assumes "web_service (dp_ui D) hist (dp_auth D)" and "service_run D hist s es s'"
  shows "ours (hist (sr_world s')) \<le> ours (hist (sr_world s)) + length (filter write_event es)"
  by (rule service_run_ours [OF assms(2,1)])

theorem service_commit_bound_witness:
  "ours (site_hist (sr_world written_site)) \<le> ours (site_hist (sr_world site_service)) + 1 \<and>
   ours (site_hist (sr_world written_site)) = 1"
proof -
  have D: "dp_ui site_deployment = site_ui" "dp_auth site_deployment = site_lib"
    by (simp_all add: site_deployment_def)
  have "length (filter write_event [WebCall admin_unlocks, WebCall ann_writes]) = 1"
    by code_simp
  with service_commit_bound [OF _ site_run(3), unfolded D, OF site_web_service] site_facts(2)
  show ?thesis by simp
qed

text \<open>
  (C15) Who sets the key: once unlocked, no event changes the key or locks the vault again;
  and a vault that got unlocked over a run was unlocked by one POST to \<^verbatim>\<open>/unlock\<close> that passed
  the cross-origin check and came from an admin (or from anyone in development mode
  without permission manager), and has the key which that request submitted.
\<close>

theorem service_key_from_admin:
  assumes "service_run D hist s es s'"
  shows "(\<not> isLocked (sr_manager s) \<longrightarrow> sr_manager s' = sr_manager s) \<and>
    (sr_manager s' \<noteq> sr_manager s \<longrightarrow>
       (\<exists>es1 e es2 t i. es = es1 @ e # es2 \<and> service_run D hist s es1 t \<and> unlock_allowed D t e i \<and>
          sr_manager s' = (sr_manager s)\<lparr>identity := Some i, isLocked := False\<rparr>))"
proof (intro conjI impI)
  assume "sr_manager s' \<noteq> sr_manager s"
  from service_run_first [where Q = "\<lambda>t t'. sr_manager t' = sr_manager t", OF assms this]
  obtain es1 e es2 t t' where *: "es = es1 @ e # es2" "service_run D hist s es1 t"
    "service_step D hist t e t'" "service_run D hist t' es2 s'" "sr_manager t = sr_manager s"
    "sr_manager t' \<noteq> sr_manager t"
    by auto
  from service_step_manager [OF *(3,6)] obtain i where i: "unlock_allowed D t e i"
    "sr_manager t' = (sr_manager t)\<lparr>identity := Some i, isLocked := False\<rparr>" by blast
  with service_run_unlocked [OF *(4)] * show "\<exists>es1 e es2 t i. es = es1 @ e # es2 \<and>
      service_run D hist s es1 t \<and> unlock_allowed D t e i \<and>
      sr_manager s' = (sr_manager s)\<lparr>identity := Some i, isLocked := False\<rparr>"
    by (metis VaultManager.select_convs(2) VaultManager.surjective VaultManager.update_convs(1,2))
qed (rule service_run_unlocked [OF assms])

theorem service_key_from_admin_witness:
  "(\<exists>es1 e es2 t i. [WebCall admin_unlocks] = es1 @ e # es2 \<and>
      service_run site_deployment site_hist site_service es1 t \<and> unlock_allowed site_deployment t e i) \<and>
   sr_manager written_site = sr_manager unlocked_site"
proof -
  have "sr_manager unlocked_site \<noteq> sr_manager site_service"
    using site_facts(3,4) by metis
  with service_key_from_admin [OF site_run(1) [of site_hist]]
    service_key_from_admin [OF site_run(2) [of site_hist]] site_facts(3)
  show ?thesis by blast
qed

end
