(* ===== verification/Startup_Properties.thy ===== *)
theory Startup_Properties
  imports Startup Service_Properties
begin

text \<open>
  The properties of the start: where the master key comes from, and what a program that
  was started outside the development mode guarantees to every mount and every web
  request from its first moment, in terms of the permissions file it read.
\<close>

section \<open>What a successful start did\<close>

lemma main_startedE:
  assumes "main P cfg0 s = (Inr R, s')"
  obtains cfg level E m pmo s1 s2 s3 where
    "open_client P (resolved (pf_readFile P) cfg0) s = (Inr E, s1)"
    "dev_master_key P (resolved (pf_readFile P) cfg0) s1 = (Inr cfg, s2)"
    "start_vault P cfg E s2 = (m, s3)" "insecure cfg = None"
    "open_permissions P cfg s3 = (Inr pmo, s')" "R = serve P cfg level E m pmo"
proof -
  have "ResolveSecrets (pf_readFile P) cfg0 = (None, resolved (pf_readFile P) cfg0)"
    if "ResolveSecrets (pf_readFile P) cfg0 = (None, c)" for c
    using that ResolveSecrets_first [of "pf_readFile P" cfg0] ResolveSecrets_ok [of "pf_readFile P" cfg0]
    by simp
  with assms that show thesis
    by (fastforce simp: main_def split: prod.splits option.splits sum.splits)
qed

text \<open>The throwaway key is the only setting that the start changes after the resolution.\<close>

lemma dev_master_key_Inr:
  assumes "dev_master_key P cfg s = (Inr cfg', s')"
  shows "\<exists>k. cfg' = cfg\<lparr>MasterKey := k\<rparr> \<and>
    (k \<noteq> MasterKey cfg \<longrightarrow> DevMode cfg \<and> MasterKey cfg = [] \<and> KMSCiphertext cfg = [] \<and> GCPKMSCiphertext cfg = [])"
proof -
  have "cfg = cfg\<lparr>MasterKey := MasterKey cfg\<rparr>" by simp
  with assms show ?thesis
    by (auto simp: dev_master_key_def split: if_splits prod.splits sum.splits)
qed

lemma started_settings:
  assumes "dev_master_key P (resolved rf cfg0) s = (Inr cfg, s')"
  shows "DevMode cfg = DevMode cfg0" "PermConfigPath cfg = PermConfigPath cfg0"
    "JWTUserHeader cfg = JWTUserHeader cfg0" "JWTAdminHeader cfg = JWTAdminHeader cfg0"
    "JWTAdminValue cfg = JWTAdminValue cfg0"
  using dev_master_key_Inr [OF assms] by (auto simp: resolved_def)

text \<open>
  The permissions a start opens: none without a path, else a sound manager that holds the
  tables of the document in the file.
\<close>

lemma EnableUserInfoAuth_facts [simp]:
  "permissions (EnableUserInfoAuth pm i ttl) = permissions pm"
  "admins (EnableUserInfoAuth pm i ttl) = admins pm"
  "namespacePermissions (EnableUserInfoAuth pm i ttl) = namespacePermissions pm"
  by (simp_all add: EnableUserInfoAuth_def)

lemma EnableUserInfoAuth_ok:
  "pm_ok L genuine identified pm \<Longrightarrow> pm_ok L genuine identified (EnableUserInfoAuth pm i ttl)"
  by (auto simp: pm_ok_def EnableUserInfoAuth_def newUserInfoCache_def five_minutes_def)

definition installed :: "'n yaml \<Rightarrow> bytes \<Rightarrow> 'a perm_tables_scheme \<Rightarrow> bool" where
  "installed Y data pm \<longleftrightarrow>
     (\<exists>raw. yaml_parse Y data = Inr raw \<and>
        (\<forall>u. map_of (permissions pm) u = doc_user Y raw u) \<and>
        (\<forall>k. map_of (namespacePermissions pm) k = doc_namespace Y raw k) \<and>
        admins pm = doc_admins Y raw [])"

lemma new_manager_installed:
  assumes "yaml_decoder Y" and "NewPermissionManagerWithJWTConfig Pem Y readFile path kc uc = Inr pm"
  shows "\<exists>data. readFile path = Inr data \<and> installed Y data pm"
proof -
  from assms(2) obtain pm0 where load: "Load Y (readFile path) pm0 = (None, pm)" and "admins pm0 = []"
    by (rule new_managerE) blast
  from load obtain data where data: "readFile path = Inr data"
    by (auto simp: Load_def split: sum.splits)
  with Load_document [OF assms(1), of data pm0 pm] load \<open>admins pm0 = []\<close> show ?thesis
    by (auto simp: installed_def)
qed

lemma open_permissions_Inr:
  assumes "open_permissions P cfg s = (Inr pmo, s')"
  shows "(pmo = None \<longleftrightarrow> PermConfigPath cfg = []) \<and>
    (\<forall>pm. pmo = Some pm \<longrightarrow> pm_ok L genuine identified pm \<and>
       (yaml_decoder (pf_yaml P) \<longrightarrow>
          (\<exists>data. pf_readFile P (PermConfigPath cfg) = Inr data \<and> installed (pf_yaml P) data pm)))"
proof (cases "PermConfigPath cfg = []")
  case False
  let ?new = "NewPermissionManagerWithJWTConfig (pf_pem P) (pf_yaml P) (pf_readFile P)
    (PermConfigPath cfg) (key_config cfg) (JWTUserClaim cfg)"
  from False assms obtain pm where new: "?new = Inr pm"
    by (auto simp: open_permissions_def split: sum.splits)
  then have "pmo = Some pm \<or> (\<exists>i. pmo = Some (EnableUserInfoAuth pm i (OAuthUserInfoCacheTTL cfg)))"
    using False assms by (auto simp: open_permissions_def split: sum.splits prod.splits if_splits)
  moreover have "pm_ok L genuine identified pm"
    by (rule new_manager_ok [OF new])
  moreover have "yaml_decoder (pf_yaml P) \<longrightarrow>
      (\<exists>data. pf_readFile P (PermConfigPath cfg) = Inr data \<and> installed (pf_yaml P) data pm)"
    using new_manager_installed [OF _ new] by blast
  ultimately show ?thesis
    using False EnableUserInfoAuth_ok by (auto simp: installed_def)
qed (use assms in \<open>auto simp: open_permissions_def\<close>)

text \<open>What holds of a program that was started outside the development mode.\<close>

lemma production_start:
  assumes "main P cfg s = (Inr R, s')" "\<not> DevMode cfg" "yaml_decoder (pf_yaml P)"
  shows "\<exists>pm data. rn_permMgr R = Some pm \<and> pm_ok L genuine identified pm \<and>
    pf_readFile P (PermConfigPath cfg) = Inr data \<and> installed (pf_yaml P) data pm \<and>
    sv_permMgr (rn_provider R) = Some pm \<and> sv_manager (rn_provider R) = rn_manager R \<and>
    \<not> sv_allowUnauthenticated (rn_provider R) \<and>
    (JWTAdminHeader cfg \<noteq> [] \<longrightarrow> JWTAdminValue cfg \<noteq> []) \<and>
    (\<forall>h. rn_handler R = Inr h \<longrightarrow>
       (\<exists>tr. h = admin_request (pf_auth P) \<lparr>ue_vault = rn_vault R, ue_text = pf_ui_text P\<rparr> (pf_origin_host P) tr
          \<lparr>ah_user = JWTUserHeader cfg, ah_admin = JWTAdminHeader cfg, ah_adminValue = JWTAdminValue cfg\<rparr> False))"
proof -
  from assms(1) obtain c level E m pmo s1 s2 s3 where
    dev: "dev_master_key P (resolved (pf_readFile P) cfg) s1 = (Inr c, s2)"
    and sec: "insecure c = None" and perms: "open_permissions P c s3 = (Inr pmo, s')"
    and R: "R = serve P c level E m pmo"
    by (rule main_startedE)
  note same = started_settings [OF dev]
  from sec assms(2) same have path: "PermConfigPath c \<noteq> []"
    and adm: "JWTAdminHeader c \<noteq> [] \<longrightarrow> JWTAdminValue c \<noteq> []"
    by (auto simp: insecure_def split: if_splits)
  with open_permissions_Inr [OF perms, of L genuine identified] obtain pm where "pmo = Some pm" by auto
  with open_permissions_Inr [OF perms, of L genuine identified] assms(2,3) R adm same show ?thesis
    by (auto simp: serve_def newAdminHandler_def web_config_def split: sum.splits)
qed

section \<open>The service that was started\<close>

text \<open>
  The deployment that a start sets up, and the state it begins in. The trusted origins are
  those that the web handler accepted.
\<close>

definition deployment_of ::
    "('s, 'id, 'n) platform \<Rightarrow> string list \<Rightarrow> Config \<Rightarrow> ('s, 'id) running \<Rightarrow> ('s, 'id, 'n) deployment" where
  "deployment_of P tr cfg R =
     \<lparr>dp_auth = pf_auth P, dp_ui = \<lparr>ue_vault = rn_vault R, ue_text = pf_ui_text P\<rparr>,
      dp_origin_host = pf_origin_host P, dp_trusted = tr, dp_headers = hc_headers (web_config cfg),
      dp_dev = DevMode cfg, dp_yaml = pf_yaml P\<rparr>"

definition initial_service ::
    "('s, 'id, 'n) platform \<Rightarrow> Config \<Rightarrow> ('s, 'id) running \<Rightarrow> 's \<Rightarrow> ('s, 'id) service" where
  "initial_service P cfg R w =
     \<lparr>sr_manager = rn_manager R, sr_permMgr = rn_permMgr R, sr_world = w,
      sr_document = (case pf_readFile P (PermConfigPath cfg) of Inl e \<Rightarrow> [] | Inr data \<Rightarrow> data)\<rparr>"

text \<open>The running handler and provider are the calls of that service.\<close>

lemma started_calls:
  assumes "main P cfg w0 = (Inr R, w)"
  shows "rn_handler R = Inr h \<Longrightarrow> \<exists>tr. \<forall>r s. h r (sr_permMgr s) (sr_manager s) (sr_world s) =
      web_call (deployment_of P tr cfg R) r s"
    and "Mount (rn_vault R) (rn_provider R) a w =
      mount_call (deployment_of P tr cfg R) a (initial_service P cfg R w)"
proof -
  from assms obtain c level E m pmo s1 s2 s3 where
    dev: "dev_master_key P (resolved (pf_readFile P) cfg) s1 = (Inr c, s2)"
    and R: "R = serve P c level E m pmo"
    by (rule main_startedE)
  note same = started_settings [OF dev]
  show "\<exists>tr. \<forall>r s. h r (sr_permMgr s) (sr_manager s) (sr_world s) =
      web_call (deployment_of P tr cfg R) r s" if "rn_handler R = Inr h"
    using that same
    by (auto simp: R serve_def newAdminHandler_def web_config_def web_call_def deployment_of_def
        split: sum.splits)
  show "Mount (rn_vault R) (rn_provider R) a w =
      mount_call (deployment_of P tr cfg R) a (initial_service P cfg R w)"
    using same by (simp add: R serve_def mount_call_def deployment_of_def initial_service_def)
qed

lemma start_vault_ok: "start_vault P cfg E s = (m, s') \<Longrightarrow> vm_ok m"
  by (auto simp: start_vault_def split: prod.splits dest: vm_ok_New)

lemma installed_grants: "installed Y data pm \<Longrightarrow> grants_from Y data pm"
  by (auto simp: installed_def grants_from_def)

lemma production_service_ok:
  assumes "main P cfg w0 = (Inr R, w)" "\<not> DevMode cfg" "yaml_decoder (pf_yaml P)"
  shows "service_ok (deployment_of P tr cfg R) genuine identified (initial_service P cfg R w)"
proof -
  from assms(1) obtain c level E m pmo s1 s2 s3 where
    "start_vault P c E s2 = (m, s3)" "R = serve P c level E m pmo"
    by (rule main_startedE)
  then have "vm_ok (rn_manager R)" by (auto simp: serve_def dest: start_vault_ok)
  with production_start [OF assms, of "pf_auth P" genuine identified] show ?thesis
    by (auto simp: service_ok_def deployment_of_def initial_service_def intro: installed_grants)
qed

section \<open>Where the key comes from\<close>

lemma provider_choice:
  assumes "resolveKeyProvider (keyProviders g k K) cfg s = (p, s')"
  shows "case p of
      EnvKeyProvider key \<Rightarrow> key = MasterKey cfg
    | AwsKMSKeyProvider ct c \<Rightarrow> k \<and> ct = KMSCiphertext cfg \<and> ct \<noteq> []
    | GcpKMSKeyProvider ct c \<Rightarrow>
        g \<and> ct = GCPKMSCiphertext cfg \<and> ct \<noteq> [] \<and> gcp_keyName c = GCPKMSKeyName cfg \<and> gcp_keyName c \<noteq> []"
  using assms
  by (auto simp: resolveKeyProvider_def keyProviders_def gcp_factory_def aws_factory_def gcp_NewClient_def
      split: if_splits prod.splits sum.splits option.splits MasterKeyProvider.splits)

text \<open>Without a ciphertext, or in a build without the services, the key is the configured one.\<close>

lemma provider_env:
  assumes "k \<longrightarrow> KMSCiphertext cfg = []" "g \<longrightarrow> GCPKMSCiphertext cfg = [] \<or> GCPKMSKeyName cfg = []"
  shows "resolveKeyProvider (keyProviders g k K) cfg s = (EnvKeyProvider (MasterKey cfg), s)"
  using assms by (auto simp: resolveKeyProvider_def keyProviders_def gcp_factory_def aws_factory_def)

lemma start_vault_key:
  assumes "start_vault P cfg E s = (m, s')"
  shows "(isLocked m \<and> identity m = None) \<or>
    (\<exists>p s1 k i. (\<exists>s0. resolveKeyProvider (keyProviders (pf_gcpkms_tag P) (pf_kms_tag P) (pf_sdk P)) cfg s0 = (p, s1)) \<and>
       stands_for p s1 k \<and> k \<noteq> [] \<and> parse_master_key E k = Inr i \<and> key_verified E i \<and>
       m = \<lparr>identity = Some i, isLocked = False\<rparr>)"
proof -
  obtain p s1 where p: "resolveKeyProvider (keyProviders (pf_gcpkms_tag P) (pf_kms_tag P) (pf_sdk P)) cfg s = (p, s1)"
    by fastforce
  with assms have "NewVaultManager E (Some (as_key_source (pf_provider_text P) (GetMasterKey p))) s1 = (m, s')"
    by (simp add: start_vault_def)
  from provider.start_manager [OF this] p provider.key_not_empty [of p s1] show ?thesis
    unfolding key_verified_def by blast
qed

text \<open>The provider that the settings call for, with the secrets in force.\<close>

definition configured_source :: "('s, 'id, 'n) platform \<Rightarrow> Config \<Rightarrow> 's MasterKeyProvider \<Rightarrow> bool" where
  "configured_source P cfg p =
     (let rf = pf_readFile P
      in case p of
           EnvKeyProvider key \<Rightarrow>
             key = in_force rf (MasterKey cfg) (MasterKeyFile cfg) \<or>
             DevMode cfg \<and> in_force rf (MasterKey cfg) (MasterKeyFile cfg) = []
         | AwsKMSKeyProvider ct c \<Rightarrow>
             pf_kms_tag P \<and> ct = in_force rf (KMSCiphertext cfg) (KMSCiphertextFile cfg) \<and> ct \<noteq> []
         | GcpKMSKeyProvider ct c \<Rightarrow>
             pf_gcpkms_tag P \<and> ct = in_force rf (GCPKMSCiphertext cfg) (GCPKMSCiphertextFile cfg) \<and> ct \<noteq> [] \<and>
             gcp_keyName c = in_force rf (GCPKMSKeyName cfg) (GCPKMSKeyNameFile cfg) \<and> gcp_keyName c \<noteq> [])"

section \<open>A reference platform\<close>

definition demo_platform :: "(ref_world \<times> ref_net, string, ref_node) platform" where
  "demo_platform =
     \<lparr>pf_readFile = (\<lambda>p. if p = ''perms.yaml'' then Inr ''v2'' else Inl ''no such file''),
      pf_cluster = (\<lambda>s. (Inr (\<lambda>ns n. site_vault), s)), pf_fake = (\<lambda>ns n. site_vault),
      pf_generate = (\<lambda>s. (Inr ''dev'', s)), pf_gcpkms_tag = True, pf_kms_tag = True,
      pf_sdk = \<lparr>aws_new = (\<lambda>s. (Inr (\<lambda>ct s. (if ct = ''x'' then Inr (Some ''k'') else Inl ''invalid'', s)), s)),
                gcp_new = (\<lambda>s. (Inl ''no credentials'', s))\<rparr>,
      pf_pem = no_pem, pf_yaml = ref_yaml [(''v2'', ops_doc)],
      pf_discover = (\<lambda>i s. (Inl ''unreachable'', s)), pf_provider_text = (\<lambda>e. ''failed''),
      pf_auth = site_lib, pf_ui_text = (\<lambda>f. ''failed''), pf_origin_host = (\<lambda>x. None),
      pf_origin_ok = (\<lambda>x. True)\<rparr>"

definition demo_config :: Config where
  "demo_config =
     \<lparr>MasterKey = [], MasterKeyFile = [], VaultSecretName = ''vault'', VaultNamespace = ''kube-system'',
      SocketPath = ''/tmp/csi.sock'', HTTPPort = 8090, DevMode = False, LogLevel = ''info'',
      PermConfigPath = ''perms.yaml'', JWTPublicKey = [], JWTPublicKeyFile = [], JWTUserClaim = ''sub'',
      JWTAudience = [], JWTIssuer = [], JWTUserHeader = ''X-User'', JWTAdminHeader = [], JWTAdminValue = [],
      JWTJWKSURL = [], JWTJWKS = [], JWTJWKSFile = [], JWTJWKSRefreshInterval = 0,
      OAuthUserInfoCacheTTL = 0, CSRFTrustedOrigins = [], KMSCiphertext = ''eA=='', KMSCiphertextFile = [],
      GCPKMSKeyName = [], GCPKMSKeyNameFile = [], GCPKMSCiphertext = [], GCPKMSCiphertextFile = []\<rparr>"

definition demo_world :: "ref_world \<times> ref_net" where
  "demo_world = (\<lparr>writes = [(False, sealed [secret_at ''/db/pass'' ''pw''])], script = []\<rparr>,
     \<lparr>rn_clock = 0, rn_serves = None\<rparr>)"


definition demo_running :: "(ref_world \<times> ref_net, string) running" where
  "demo_running = serve demo_platform demo_config LevelInfo site_vault unlocked
     (projr (fst (open_permissions demo_platform demo_config demo_world)))"

lemma demo_decoded: "std_decode ''eA=='' = Some ''x''"
  by (simp add: std_decode_def line_break_def pad_char_def b64_value_def bytes_of_24_def char_of_def bit_0)

lemma demo_vault: "start_vault demo_platform demo_config site_vault demo_world = (unlocked, demo_world)"
proof -
  have u: "Unlock site_vault ''k'' \<lparr>identity = None, isLocked = True\<rparr> demo_world = (None, unlocked, demo_world)"
    by code_simp
  obtain c where r: "resolveKeyProvider (keyProviders True True (pf_sdk demo_platform)) demo_config demo_world =
      (AwsKMSKeyProvider ''eA=='' c, demo_world)"
    and c: "\<And>ct s. aws_Decrypt c ct s = (if ct = ''x'' then Inr (Some ''k'') else Inl ''invalid'', s)"
    by (simp add: resolveKeyProvider_def keyProviders_def gcp_factory_def aws_factory_def aws_NewClient_def
        demo_platform_def demo_config_def)
  then have "GetMasterKey (AwsKMSKeyProvider ''eA=='' c) demo_world = (Inr ''k'', demo_world)"
    by (simp add: GetMasterKey_def aws_GetMasterKey_def aws_GetAgeKey_def demo_decoded plaintext_key_def kms_result_def)
  moreover have "pf_gcpkms_tag demo_platform" "pf_kms_tag demo_platform"
    by (simp_all add: demo_platform_def)
  ultimately show ?thesis
    using r u by (simp add: start_vault_def NewVaultManager_def as_key_source_def Let_def)
qed

lemma demo_started: "main demo_platform demo_config demo_world = (Inr demo_running, demo_world)"
proof -
  have "fst (ResolveSecrets (pf_readFile demo_platform) demo_config) = None"
    by code_simp
  then have rs: "ResolveSecrets (pf_readFile demo_platform) demo_config = (None, demo_config)"
    using ResolveSecrets_first [of "pf_readFile demo_platform" demo_config]
      ResolveSecrets_ok [of "pf_readFile demo_platform" demo_config]
    by (simp add: resolved_def in_force_def demo_config_def)
  have lv: "slogLevel (LogLevel demo_config) = Inr LevelInfo" and sec: "insecure demo_config = None"
    and op: "\<not> isl (fst (open_permissions demo_platform demo_config demo_world))"
      "snd (open_permissions demo_platform demo_config demo_world) = demo_world"
    by code_simp+
  have cl: "open_client demo_platform demo_config demo_world = (Inr site_vault, demo_world)"
    and dv: "dev_master_key demo_platform demo_config demo_world = (Inr demo_config, demo_world)"
    by (simp_all add: open_client_def dev_master_key_def demo_platform_def demo_config_def)
  from op obtain pmo where "open_permissions demo_platform demo_config demo_world = (Inr pmo, demo_world)"
    by (metis prod.collapse sum.collapse(2))
  then show ?thesis
    by (simp add: demo_running_def main_def rs lv cl dv demo_vault sec)
qed

abbreviation demo_deployment :: "(ref_world \<times> ref_net, string, ref_node) deployment" where
  "demo_deployment \<equiv> deployment_of demo_platform [] demo_config demo_running"

abbreviation demo_service :: "(ref_world \<times> ref_net, string) service" where
  "demo_service \<equiv> initial_service demo_platform demo_config demo_running demo_world"

lemma demo_production: "\<not> DevMode demo_config" "yaml_decoder (pf_yaml demo_platform)"
  by (simp_all add: demo_config_def demo_platform_def ref_yaml.yaml_decoder_axioms)

section \<open>Properties\<close>

text \<open>
  (C1) End to end for mounts: a service that was started outside the development mode is never
  open. After any run of it, every file that a mount returns is the value stored at a path
  which the permissions document in force grants to the pod's own identity, the entry for
  its service account deciding before that of its namespace, under a file name that stays
  in the volume. The document in force is the last one the tables were loaded from, so
  what a reload took away is not mounted any more.
\<close>

theorem production_mounts_granted:
  assumes "main P cfg w0 = (Inr R, w)" "\<not> DevMode cfg" "yaml_decoder (pf_yaml P)"
    and "token_library (pf_auth P) genuine verifies unexpired identified"
    and "service_run (deployment_of P tr cfg R) hist (initial_service P cfg R w) es s"
    and "mount_call (deployment_of P tr cfg R) a s = (Inr (fs, vs), w')"
  shows "\<exists>raw attrs tree. yaml_parse (pf_yaml P) (sr_document s) = Inr raw \<and> unmarshal_attrs a = Inr attrs \<and>
    identity_ok (pod_identity attrs) \<and>
    LoadAndDecrypt (rn_vault R) (sr_manager s) (sr_world s) = (Inr tree, w') \<and>
    fs = map (file_for tree) (pod_requests attrs) \<and>
    list_all (\<lambda>(f, p). \<not> bad_file_name f \<and> document_grants (pf_yaml P) raw (pod_identity attrs) p) (pod_requests attrs)"
proof -
  let ?D = "deployment_of P tr cfg R"
  have D: "dp_auth ?D = pf_auth P" "dp_yaml ?D = pf_yaml P"
    "ue_vault (dp_ui ?D) = rn_vault R"
    by (simp_all add: deployment_of_def)
  have "service_ok ?D genuine identified s"
    using service_run_ok [OF assms(5) production_service_ok [OF assms(1-3)]] assms(3,4) D by metis
  from service_mount [OF this assms(6)] show ?thesis unfolding D .
qed

theorem production_mounts_granted_witness:
  "\<exists>fs vs w'. mount_call demo_deployment (web_attrs ''pw=/db/pass'') demo_service = (Inr (fs, vs), w') \<and>
     map file_contents fs = [''pw''] \<and> (\<exists>raw. yaml_parse (pf_yaml demo_platform) ''v2'' = Inr raw)"
proof -
  let ?m = "mount_call demo_deployment (web_attrs ''pw=/db/pass'') demo_service"
  have ok: "\<not> isl (fst ?m)" and c: "map file_contents (fst (projr (fst ?m))) = [''pw'']"
    and d: "sr_document demo_service = ''v2''"
    by code_simp+
  from ok obtain fs vs w' where m: "?m = (Inr (fs, vs), w')"
    by (cases ?m; cases "fst ?m") auto
  have auth: "pf_auth demo_platform = site_lib" by (simp add: demo_platform_def)
  from production_mounts_granted [OF demo_started demo_production _ _ m, of _ _ _ _ "\<lambda>_. []" "[]", unfolded auth,
      OF site_token_library service_run.stop] m c
  show ?thesis unfolding d by fastforce
qed





text \<open>
  (C32) Round trip through a key management service: if the service decrypts the blob \<open>ct\<close> to a
  key, then the provider configured with the base64 text of \<open>ct\<close>, broken into lines in any
  way, returns exactly that key; for GCP under the configured key name. An empty or missing
  plaintext and a text that is not base64 are errors.
\<close>

theorem kms_key_roundtrip:
  assumes "broken (std_encode ct) b64" and "k \<noteq> []"
  shows "(aws_Decrypt c ct s = (Inr (Some k), s') \<longrightarrow> GetMasterKey (AwsKMSKeyProvider b64 c) s = (Inr k, s')) \<and>
    (gcp_Decrypt g (gcp_keyName g) ct s = (Inr (Some k), s') \<longrightarrow> GetMasterKey (GcpKMSKeyProvider b64 g) s = (Inr k, s')) \<and>
    (aws_Decrypt c ct s = (Inr None, s') \<or> aws_Decrypt c ct s = (Inr (Some []), s') \<longrightarrow>
      GetMasterKey (AwsKMSKeyProvider b64 c) s = (Inl (KMSFailed EmptyPlaintext), s')) \<and>
    (std_decode b = None \<longrightarrow> GetMasterKey (AwsKMSKeyProvider b c) s = (Inl (KMSFailed CiphertextEncoding), s))"
  using assms(2) std_decode_encode [OF assms(1)]
  by (auto simp: GetMasterKey_def aws_GetMasterKey_def gcp_GetMasterKey_def aws_GetAgeKey_def gcp_GetAgeKey_def plaintext_key_def kms_result_def)

definition echo_kms :: "unit aws_client" where
  "echo_kms = \<lparr>aws_Decrypt = (\<lambda>ct s. (Inr (Some (''AGE-'' @ ct)), s))\<rparr>"

theorem kms_key_roundtrip_witness:
  "GetMasterKey (AwsKMSKeyProvider (''eHl6'' @ [CHR 0x0A]) echo_kms) () = (Inr ''AGE-xyz'', ())"
proof -
  have b: "broken (std_encode ''xyz'') (''eHl6'' @ [CHR 0x0A])"
    by (simp add: broken_def std_encode_def std_group_def std_digit_def line_break_def char_of_def bit_0)
  have d: "aws_Decrypt echo_kms ''xyz'' () = (Inr (Some ''AGE-xyz''), ())"
    by (simp add: echo_kms_def)
  have "''AGE-xyz'' \<noteq> []" by simp
  from kms_key_roundtrip [OF b this, of echo_kms] d show ?thesis by blast
qed

end
