(* ===== verification/Lifecycle.thy ===== *)
theory Lifecycle
  imports Perm_Watch Startup_Properties
begin

text \<open>
  The life of the program after \<^verbatim>\<open>main\<close> has built its parts (main.go, and \<^verbatim>\<open>startHTTPServer\<close>
  of ui.go): the socket of the CSI server, the goroutines of the watcher, of the CSI server
  and of the web server, the end of the first of them or an interrupt, and the exit. It is
  a step relation in which the parts, the calls they serve and \<^verbatim>\<open>main\<close> interleave.
\<close>

section \<open>Opening the servers\<close>

datatype os_error = NotExist | OsError string

text \<open>What the CSI server asks of the system for its socket.\<close>

record 's socket_os =
  so_remove :: "string \<Rightarrow> 's \<Rightarrow> os_error option \<times> 's"
  so_mkdirAll :: "string \<Rightarrow> 's \<Rightarrow> string option \<times> 's"
  so_listen :: "string \<Rightarrow> 's \<Rightarrow> string option \<times> 's"
  so_chmod :: "string \<Rightarrow> nat \<Rightarrow> 's \<Rightarrow> string option \<times> 's"

text \<open>The mode 0700; the result of the last call is ignored.\<close>

definition open_socket :: "'s socket_os \<Rightarrow> string \<Rightarrow> 's \<Rightarrow> string option \<times> 's" where
  "open_socket Os path s =
     (case so_remove Os path s of
        (Some (OsError e), s1) \<Rightarrow> (Some e, s1)
      | (_, s1) \<Rightarrow>
          (case so_mkdirAll Os (path_dir path) s1 of
             (Some e, s2) \<Rightarrow> (Some e, s2)
           | (None, s2) \<Rightarrow>
               (case so_listen Os path s2 of
                  (Some e, s3) \<Rightarrow> (Some e, s3)
                | (None, s3) \<Rightarrow> (None, snd (so_chmod Os path 448 s3)))))"

text \<open>The web server's settings, its times in seconds.\<close>

record 'h http_server =
  hs_port :: int
  hs_handler :: 'h
  hs_readTimeout :: int
  hs_writeTimeout :: int
  hs_idleTimeout :: int

definition startHTTPServer :: "Config \<Rightarrow> string + 'h \<Rightarrow> string + 'h http_server" where
  "startHTTPServer cfg handler =
     (case handler of
        Inl e \<Rightarrow> Inl e
      | Inr h \<Rightarrow> Inr \<lparr>hs_port = HTTPPort cfg, hs_handler = h, hs_readTimeout = 15,
                     hs_writeTimeout = 30, hs_idleTimeout = 60\<rparr>)"

section \<open>The goroutines\<close>

datatype server_error =
    ContextCanceled
  | ErrServerClosed
  | OtherFailure string

datatype phase =
    Opening
  | Up
  | Ended "server_error option"

datatype main_phase =
    Selecting
  | Waiting
  | Exited nat

text \<open>
  The errors with which the parts fail to open, if they do. There is a watcher only if
  there is a permission manager.
\<close>

record launch =
  la_permMgr :: bool
  la_watch :: "string option"
  la_socket :: "string option"
  la_web :: "string option"

text \<open>
  The libraries: what \<^verbatim>\<open>Wait\<close> of the group returns for the results of its goroutines, in
  the order in which they ended; whether the group's context is cancelled by them; and
  what \<^verbatim>\<open>Serve\<close> of the CSI server may return, given whether its graceful stop was called
  for, and the number of mounts it is still serving.
\<close>

record server_lib =
  sl_wait :: "server_error option list \<Rightarrow> server_error option"
  sl_cancels :: "server_error option list \<Rightarrow> bool"
  sl_serve :: "bool \<Rightarrow> nat \<Rightarrow> server_error option \<Rightarrow> bool"

record lifecycle =
  lc_watch :: phase
  lc_grpc :: phase
  lc_http :: phase
  lc_results :: "server_error option list"
  lc_interrupted :: bool
  lc_mounts :: nat
  lc_requests :: nat
  lc_main :: main_phase

definition cancelled :: "server_lib \<Rightarrow> lifecycle \<Rightarrow> bool" where
  "cancelled L l \<longleftrightarrow> lc_interrupted l \<or> sl_cancels L (lc_results l)"

fun watch_result :: "watch_exit \<Rightarrow> server_error option" where
  "watch_result WatchDone = None"
| "watch_result (WatchFailed e) = Some (OtherFailure e)"

definition exit_status :: "server_lib \<Rightarrow> server_error option list \<Rightarrow> nat" where
  "exit_status L results =
     (case sl_wait L results of
        None \<Rightarrow> 0
      | Some err \<Rightarrow> if err \<noteq> ContextCanceled \<and> err \<noteq> ErrServerClosed then 1 else 0)"

abbreviation end_watch :: "server_error option \<Rightarrow> lifecycle \<Rightarrow> lifecycle" where
  "end_watch r l \<equiv> l\<lparr>lc_watch := Ended r, lc_results := lc_results l @ [r]\<rparr>"

abbreviation end_grpc :: "server_error option \<Rightarrow> lifecycle \<Rightarrow> lifecycle" where
  "end_grpc r l \<equiv> l\<lparr>lc_grpc := Ended r, lc_results := lc_results l @ [r]\<rparr>"

abbreviation end_http :: "server_error option \<Rightarrow> lifecycle \<Rightarrow> lifecycle" where
  "end_http r l \<equiv> l\<lparr>lc_http := Ended r, lc_results := lc_results l @ [r]\<rparr>"

definition ended :: "phase \<Rightarrow> bool" where
  "ended p \<longleftrightarrow> (\<exists>r. p = Ended r)"

text \<open>
  \<^verbatim>\<open>ListenAndServe\<close> returns \<^verbatim>\<open>ErrServerClosed\<close> as soon as \<^verbatim>\<open>Shutdown\<close> is called, which the
  goroutine beside it does when the context ends; it does not wait for the requests that
  are being served. The interrupt only counts while \<^verbatim>\<open>main\<close> selects.
\<close>

inductive life_step :: "server_lib \<Rightarrow> launch \<Rightarrow> lifecycle \<Rightarrow> lifecycle \<Rightarrow> bool"
  for L :: server_lib and A :: launch where
  watch_opens: "lc_watch l = Opening \<Longrightarrow> la_watch A = None \<Longrightarrow> life_step L A l (l\<lparr>lc_watch := Up\<rparr>)"
| watch_refused: "lc_watch l = Opening \<Longrightarrow> la_watch A = Some e \<Longrightarrow>
    life_step L A l (end_watch (Some (OtherFailure e)) l)"
| watch_ends: "lc_watch l = Up \<Longrightarrow> (x = WatchDone \<longrightarrow> cancelled L l) \<Longrightarrow>
    life_step L A l (end_watch (watch_result x) l)"
| grpc_opens: "lc_grpc l = Opening \<Longrightarrow> la_socket A = None \<Longrightarrow> life_step L A l (l\<lparr>lc_grpc := Up\<rparr>)"
| grpc_refused: "lc_grpc l = Opening \<Longrightarrow> la_socket A = Some e \<Longrightarrow>
    life_step L A l (end_grpc (Some (OtherFailure e)) l)"
| grpc_returns: "lc_grpc l = Up \<Longrightarrow> sl_serve L (cancelled L l) (lc_mounts l) r \<Longrightarrow>
    life_step L A l (end_grpc r l)"
| http_opens: "lc_http l = Opening \<Longrightarrow> la_web A = None \<Longrightarrow> life_step L A l (l\<lparr>lc_http := Up\<rparr>)"
| http_refused: "lc_http l = Opening \<Longrightarrow> la_web A = Some e \<Longrightarrow>
    life_step L A l (end_http (Some (OtherFailure e)) l)"
| http_fails: "lc_http l = Up \<Longrightarrow> life_step L A l (end_http (Some (OtherFailure e)) l)"
| http_closed: "lc_http l = Up \<Longrightarrow> cancelled L l \<Longrightarrow> life_step L A l (end_http (Some ErrServerClosed) l)"
| mount_begins: "lc_grpc l = Up \<Longrightarrow> life_step L A l (l\<lparr>lc_mounts := Suc (lc_mounts l)\<rparr>)"
| mount_ends: "0 < lc_mounts l \<Longrightarrow> lc_main l = Selecting \<or> lc_main l = Waiting \<Longrightarrow>
    life_step L A l (l\<lparr>lc_mounts := lc_mounts l - 1\<rparr>)"
| request_begins: "lc_http l = Up \<Longrightarrow> life_step L A l (l\<lparr>lc_requests := Suc (lc_requests l)\<rparr>)"
| request_ends: "0 < lc_requests l \<Longrightarrow> lc_main l = Selecting \<or> lc_main l = Waiting \<Longrightarrow>
    life_step L A l (l\<lparr>lc_requests := lc_requests l - 1\<rparr>)"
| interrupt: "lc_main l = Selecting \<Longrightarrow> life_step L A l (l\<lparr>lc_main := Waiting, lc_interrupted := True\<rparr>)"
| ctx_done: "lc_main l = Selecting \<Longrightarrow> cancelled L l \<Longrightarrow> life_step L A l (l\<lparr>lc_main := Waiting\<rparr>)"
| exits: "lc_main l = Waiting \<Longrightarrow> ended (lc_watch l) \<Longrightarrow> ended (lc_grpc l) \<Longrightarrow> ended (lc_http l) \<Longrightarrow>
    life_step L A l (l\<lparr>lc_main := Exited (exit_status L (lc_results l))\<rparr>)"

text \<open>Without a permission manager there is no watcher to wait for.\<close>

definition life_start :: "launch \<Rightarrow> lifecycle" where
  "life_start A =
     \<lparr>lc_watch = (if la_permMgr A then Opening else Ended None), lc_grpc = Opening, lc_http = Opening,
      lc_results = [], lc_interrupted = False, lc_mounts = 0, lc_requests = 0, lc_main = Selecting\<rparr>"

abbreviation life_run :: "server_lib \<Rightarrow> launch \<Rightarrow> lifecycle \<Rightarrow> bool" where
  "life_run L A l \<equiv> (life_step L A)\<^sup>*\<^sup>* (life_start A) l"

text \<open>The launch of a program that \<^verbatim>\<open>main\<close> has started.\<close>

definition launch_of ::
    "'o socket_os \<Rightarrow> 'o \<Rightarrow> string option \<Rightarrow> 'p watch_sys \<Rightarrow> Config \<Rightarrow> ('s, 'id) running \<Rightarrow> launch" where
  "launch_of Os os new_err ws cfg R =
     \<lparr>la_permMgr = (rn_permMgr R \<noteq> None),
      la_watch = (case fst (watch_start new_err ws) of Some (WatchFailed e) \<Rightarrow> Some e | _ \<Rightarrow> None),
      la_socket = fst (open_socket Os (SocketPath cfg) os),
      la_web = (case startHTTPServer cfg (rn_handler R) of Inl e \<Rightarrow> Some e | Inr srv \<Rightarrow> None)\<rparr>"


section \<open>What the libraries document\<close>

text \<open>
  The group's \<^verbatim>\<open>Wait\<close> returns the first error, which cancels the group's context. \<^verbatim>\<open>Serve\<close>
  returns without an error only after a graceful stop was called for and the mounts it
  serves have ended; it can return then.
\<close>

fun first_error :: "server_error option list \<Rightarrow> server_error option" where
  "first_error [] = None"
| "first_error (None # rs) = first_error rs"
| "first_error (Some e # rs) = Some e"

locale server_group =
  fixes L :: server_lib
  assumes wait_first: "sl_wait L rs = first_error rs"
    and cancels: "sl_cancels L rs \<longleftrightarrow> (\<exists>e. Some e \<in> set rs)"
    and serve_result: "sl_serve L stopped n r \<Longrightarrow>
      (r = None \<longrightarrow> stopped \<and> n = 0) \<and> (\<forall>e. r = Some e \<longrightarrow> (\<exists>m. e = OtherFailure m))"
    and serve_stops: "\<exists>r. sl_serve L True 0 r"

lemma first_error_in: "first_error rs = Some e \<Longrightarrow> Some e \<in> set rs"
  by (induction rs rule: first_error.induct) auto

section \<open>What holds throughout\<close>

definition life_inv :: "server_lib \<Rightarrow> lifecycle \<Rightarrow> bool" where
  "life_inv L l \<longleftrightarrow>
     (lc_grpc l = Opening \<longrightarrow> lc_mounts l = 0) \<and>
     (\<forall>r. lc_grpc l = Ended r \<longrightarrow> r \<in> set (lc_results l) \<and> (r = None \<longrightarrow> lc_mounts l = 0) \<and>
        (\<forall>e. r = Some e \<longrightarrow> (\<exists>m. e = OtherFailure m))) \<and>
     (\<not> lc_interrupted l \<longrightarrow> lc_results l \<noteq> [] \<longrightarrow> (\<exists>m. hd (lc_results l) = Some (OtherFailure m))) \<and>
     (lc_main l = Waiting \<longrightarrow> cancelled L l) \<and>
     (\<forall>n. lc_main l = Exited n \<longrightarrow> n = exit_status L (lc_results l) \<and> cancelled L l \<and>
        ended (lc_watch l) \<and> ended (lc_grpc l) \<and> ended (lc_http l))"

lemma ended_simps [simp]: "ended (Ended r)" "\<not> ended Opening" "\<not> ended Up"
  by (simp_all add: ended_def)

context server_group
begin

lemma cancelled_results: "cancelled L l \<Longrightarrow> lc_interrupted l \<or> lc_results l \<noteq> []"
  by (auto simp: cancelled_def cancels)

lemma cancelled_stays: "life_step L A l l' \<Longrightarrow> cancelled L l \<Longrightarrow> cancelled L l'"
  by (induction rule: life_step.induct) (auto simp: cancelled_def cancels)

lemma life_start_inv: "life_inv L (life_start A)"
  by (simp add: life_inv_def life_start_def)

lemma life_step_inv: "life_step L A l l' \<Longrightarrow> life_inv L l \<Longrightarrow> life_inv L l'"
proof (induction rule: life_step.induct)
  case (grpc_returns l r)
  then show ?case
    using serve_result [OF grpc_returns(2)] cancelled_results [of l]
    by (cases r) (auto simp: life_inv_def cancelled_def cancels hd_append)
next
  case (watch_ends l x)
  then show ?case
    using cancelled_results [of l] by (cases x) (auto simp: life_inv_def cancelled_def cancels hd_append)
next
  case (http_closed l)
  then show ?case
    using cancelled_results [of l] by (auto simp: life_inv_def cancelled_def cancels hd_append)
qed (auto simp: life_inv_def cancelled_def cancels hd_append)

lemma life_steps_inv: "(life_step L A)\<^sup>*\<^sup>* l l' \<Longrightarrow> life_inv L l \<Longrightarrow> life_inv L l'"
  by (induction rule: rtranclp_induct) (auto intro: life_step_inv)

lemma life_run_inv: "life_run L A l \<Longrightarrow> life_inv L l"
  by (erule life_steps_inv) (rule life_start_inv)

end

section \<open>Shutting down\<close>

text \<open>The steps other than the arrival of a call.\<close>

definition shutdown_step :: "server_lib \<Rightarrow> launch \<Rightarrow> lifecycle \<Rightarrow> lifecycle \<Rightarrow> bool" where
  "shutdown_step L A l l' \<longleftrightarrow>
     life_step L A l l' \<and> lc_mounts l' \<le> lc_mounts l \<and> lc_requests l' \<le> lc_requests l"

fun phase_left :: "phase \<Rightarrow> nat" where
  "phase_left Opening = 2"
| "phase_left Up = 1"
| "phase_left (Ended r) = 0"

fun main_left :: "main_phase \<Rightarrow> nat" where
  "main_left Selecting = 2"
| "main_left Waiting = 1"
| "main_left (Exited n) = 0"

definition life_left :: "lifecycle \<Rightarrow> nat" where
  "life_left l = phase_left (lc_watch l) + phase_left (lc_grpc l) + phase_left (lc_http l) +
     main_left (lc_main l) + lc_mounts l + lc_requests l"

lemma shutdown_decreases: "shutdown_step L A l l' \<Longrightarrow> life_left l' < life_left l"
  unfolding shutdown_step_def
  by (elim conjE, induction rule: life_step.induct) (auto simp: life_left_def)

lemma shutdown_terminates: "wfP (\<lambda>l' l. shutdown_step L A l l')"
  by (rule wfp_if_convertible_to_nat [where f = life_left]) (rule shutdown_decreases)

context server_group
begin

lemma shutdown_progress:
  assumes "cancelled L l" and "\<nexists>l'. shutdown_step L A l l'"
  shows "\<exists>n. lc_main l = Exited n"
proof (rule ccontr)
  assume alive: "\<nexists>n. lc_main l = Exited n"
  have no: "life_step L A l l' \<Longrightarrow> lc_mounts l' \<le> lc_mounts l \<Longrightarrow> lc_requests l' \<le> lc_requests l \<Longrightarrow> False" for l'
    using assms(2) by (auto simp: shutdown_step_def)
  have "lc_main l \<noteq> Selecting"
    using no [OF life_step.ctx_done] assms(1) by auto
  with alive have main: "lc_main l = Waiting" by (cases "lc_main l") auto
  have watch: "ended (lc_watch l)"
  proof (cases "lc_watch l")
    case Opening
    then show ?thesis
      using no [OF life_step.watch_opens] no [OF life_step.watch_refused] by (cases "la_watch A") auto
  qed (use no [OF life_step.watch_ends [where x = WatchDone]] assms(1) in auto)
  have http: "ended (lc_http l)"
  proof (cases "lc_http l")
    case Opening
    then show ?thesis
      using no [OF life_step.http_opens] no [OF life_step.http_refused] by (cases "la_web A") auto
  qed (use no [OF life_step.http_closed] assms(1) in auto)
  have mounts: "lc_mounts l = 0"
    using no [OF life_step.mount_ends] main by (cases "lc_mounts l") auto
  obtain r where "sl_serve L True 0 r" using serve_stops by blast
  then have "lc_grpc l \<noteq> Up"
    using no [OF life_step.grpc_returns] assms(1) mounts by auto
  moreover have "lc_grpc l \<noteq> Opening"
    using no [OF life_step.grpc_opens] no [OF life_step.grpc_refused] by (cases "la_socket A") auto
  ultimately have "ended (lc_grpc l)" by (cases "lc_grpc l") auto
  then show False
    using no [OF life_step.exits [OF main watch _ http]] by simp
qed

lemma cancelled_stays_steps: "(shutdown_step L A)\<^sup>*\<^sup>* l l' \<Longrightarrow> cancelled L l \<Longrightarrow> cancelled L l'"
  by (induction rule: rtranclp_induct) (auto simp: shutdown_step_def intro: cancelled_stays)

lemma exit_status_failure:
  "exit_status L rs = (case first_error rs of Some (OtherFailure m) \<Rightarrow> 1 | _ \<Rightarrow> 0)"
  by (simp add: exit_status_def wait_first split: option.split server_error.split)

lemma exited:
  assumes "life_inv L l" "lc_main l = Exited n"
  shows "(n = 1 \<longleftrightarrow> (\<exists>m. first_error (lc_results l) = Some (OtherFailure m))) \<and> (n \<noteq> 1 \<longrightarrow> n = 0) \<and>
    (\<not> lc_interrupted l \<longrightarrow> n = 1) \<and>
    ((\<forall>m. Some (OtherFailure m) \<notin> set (lc_results l)) \<longrightarrow> lc_mounts l = 0)"
proof -
  have n: "n = exit_status L (lc_results l)" and c: "cancelled L l" and "ended (lc_grpc l)"
    using assms by (auto simp: life_inv_def)
  then obtain r where r: "lc_grpc l = Ended r" by (auto simp: ended_def)
  have "n = 1" if "\<not> lc_interrupted l"
  proof -
    from that c cancelled_results assms obtain m where "hd (lc_results l) = Some (OtherFailure m)"
      and "lc_results l \<noteq> []" by (auto simp: life_inv_def)
    then have "first_error (lc_results l) = Some (OtherFailure m)" by (cases "lc_results l") auto
    then show ?thesis using n by (simp add: exit_status_failure)
  qed
  moreover have "lc_mounts l = 0" if "\<forall>m. Some (OtherFailure m) \<notin> set (lc_results l)"
    using assms(1) r that by (cases r) (auto simp: life_inv_def)
  moreover have "(n = 1 \<longleftrightarrow> (\<exists>m. first_error (lc_results l) = Some (OtherFailure m))) \<and> (n \<noteq> 1 \<longrightarrow> n = 0)"
    unfolding n by (simp add: exit_status_failure split: option.split server_error.split)
  ultimately show ?thesis by blast
qed

end

section \<open>Properties\<close>

definition ref_group :: server_lib where
  "ref_group =
     \<lparr>sl_wait = first_error, sl_cancels = (\<lambda>rs. \<exists>r \<in> set rs. r \<noteq> None),
      sl_serve = (\<lambda>stopped n r.
        case r of None \<Rightarrow> stopped \<and> n = 0 | Some (OtherFailure m) \<Rightarrow> True | Some e \<Rightarrow> False)\<rparr>"

interpretation ref_group: server_group ref_group
  by unfold_locales (force simp: ref_group_def split: option.splits server_error.splits)+

text \<open>
  (C26) The end of the program: once the context is cancelled, by an interrupt or by the
  end of a part with an error, only finitely many steps other than new calls are possible,
  and when there is none left, \<^verbatim>\<open>main\<close> has exited. Its status is 1 exactly if the first
  error that a part returned is a failure, always so if there was no interrupt, and 0
  otherwise; and if no part failed, no mount was cut off.
\<close>

theorem shutdown_completes:
  assumes "server_group L" "life_run L A l" "cancelled L l"
    and "(shutdown_step L A)\<^sup>*\<^sup>* l l'" "\<nexists>l''. shutdown_step L A l' l''"
  shows "wfP (\<lambda>y x. shutdown_step L A x y) \<and>
    (\<exists>n. lc_main l' = Exited n \<and>
       (n = 1 \<longleftrightarrow> (\<exists>m. first_error (lc_results l') = Some (OtherFailure m))) \<and> (n \<noteq> 1 \<longrightarrow> n = 0) \<and>
       (\<not> lc_interrupted l' \<longrightarrow> n = 1) \<and>
       ((\<forall>m. Some (OtherFailure m) \<notin> set (lc_results l')) \<longrightarrow> lc_mounts l' = 0))"
proof -
  have "(life_step L A)\<^sup>*\<^sup>* l l'"
    using assms(4) by (rule rtranclp_mono [THEN predicate2D, rotated]) (auto simp: shutdown_step_def)
  with server_group.life_run_inv [OF assms(1,2)] have "life_inv L l'" by (rule server_group.life_steps_inv [OF assms(1), rotated])
  moreover obtain n where "lc_main l' = Exited n"
    using server_group.shutdown_progress [OF assms(1) server_group.cancelled_stays_steps [OF assms(1,4,3)] assms(5)] by blast
  ultimately show ?thesis
    using server_group.exited [OF assms(1)] shutdown_terminates by blast
qed

text \<open>An interrupt of a program that serves nothing: it exits with status 0.\<close>

definition all_well :: launch where
  "all_well = \<lparr>la_permMgr = True, la_watch = None, la_socket = None, la_web = None\<rparr>"

definition interrupted_early :: lifecycle where
  "interrupted_early = (life_start all_well)\<lparr>lc_main := Waiting, lc_interrupted := True\<rparr>"

definition closed_well :: "nat \<Rightarrow> lifecycle" where
  "closed_well k =
     \<lparr>lc_watch = Ended None, lc_grpc = Ended None, lc_http = Ended (Some ErrServerClosed),
      lc_results = [None, None, Some ErrServerClosed], lc_interrupted = True, lc_mounts = 0,
      lc_requests = k, lc_main = Exited 0\<rparr>"

lemma closed_stuck: "\<not> life_step L A (closed_well k) l"
  by (auto simp: closed_well_def elim: life_step.cases)

text \<open>The steps that close a program whose parts are up, with \<open>k\<close> web requests being served.\<close>

abbreviation up_with :: "bool \<Rightarrow> nat \<Rightarrow> main_phase \<Rightarrow> lifecycle" where
  "up_with b k m \<equiv>
     \<lparr>lc_watch = Up, lc_grpc = Up, lc_http = Up, lc_results = [], lc_interrupted = b, lc_mounts = 0,
      lc_requests = k, lc_main = m\<rparr>"

lemma ref_cancelled: "lc_interrupted l \<Longrightarrow> cancelled ref_group l"
  by (simp add: cancelled_def)

lemma ref_serve: "sl_serve ref_group True 0 None"
  by (simp add: ref_group_def)

lemma steps_down:
  "(shutdown_step ref_group A)\<^sup>*\<^sup>* (up_with True k Waiting) (closed_well k)"
proof -
  let ?S = "shutdown_step ref_group A"
  let ?l1 = "(up_with True k Waiting)\<lparr>lc_watch := Ended None, lc_results := [None]\<rparr>"
  let ?l2 = "?l1\<lparr>lc_grpc := Ended None, lc_results := [None, None]\<rparr>"
  let ?l3 = "?l2\<lparr>lc_http := Ended (Some ErrServerClosed), lc_results := [None, None, Some ErrServerClosed]\<rparr>"
  have "?S (up_with True k Waiting) ?l1"
    using life_step.watch_ends [where x = WatchDone and L = ref_group and A = A and l = "up_with True k Waiting"]
    by (simp add: shutdown_step_def ref_cancelled)
  moreover have "?S ?l1 ?l2"
    using life_step.grpc_returns [where r = None and L = ref_group and A = A and l = ?l1]
    by (simp add: shutdown_step_def ref_cancelled ref_serve)
  moreover have "?S ?l2 ?l3"
    using life_step.http_closed [where L = ref_group and A = A and l = ?l2]
    by (simp add: shutdown_step_def ref_cancelled)
  moreover have "?S ?l3 (closed_well k)"
    using life_step.exits [where L = ref_group and A = A and l = ?l3]
    by (simp add: shutdown_step_def exit_status_def ref_group.wait_first closed_well_def)
  ultimately show ?thesis by (meson converse_rtranclp_into_rtranclp rtranclp.rtrancl_refl)
qed

lemma steps_up:
  "(shutdown_step ref_group all_well)\<^sup>*\<^sup>* ((life_start all_well)\<lparr>lc_main := m, lc_interrupted := b\<rparr>) (up_with b 0 m)"
proof -
  let ?S = "shutdown_step ref_group all_well" and ?l0 = "(life_start all_well)\<lparr>lc_main := m, lc_interrupted := b\<rparr>"
  have "?S ?l0 (?l0\<lparr>lc_watch := Up\<rparr>)"
    using life_step.watch_opens [where L = ref_group and A = all_well and l = ?l0]
    by (simp add: shutdown_step_def life_start_def all_well_def)
  moreover have "?S (?l0\<lparr>lc_watch := Up\<rparr>) (?l0\<lparr>lc_watch := Up, lc_grpc := Up\<rparr>)"
    using life_step.grpc_opens [where L = ref_group and A = all_well and l = "?l0\<lparr>lc_watch := Up\<rparr>"]
    by (simp add: shutdown_step_def life_start_def all_well_def)
  moreover have "?S (?l0\<lparr>lc_watch := Up, lc_grpc := Up\<rparr>) (up_with b 0 m)"
    using life_step.http_opens [where L = ref_group and A = all_well and l = "?l0\<lparr>lc_watch := Up, lc_grpc := Up\<rparr>"]
    by (simp add: shutdown_step_def life_start_def all_well_def)
  ultimately show ?thesis by (meson converse_rtranclp_into_rtranclp rtranclp.rtrancl_refl)
qed

lemma shutdown_life: "(shutdown_step L A)\<^sup>*\<^sup>* l l' \<Longrightarrow> (life_step L A)\<^sup>*\<^sup>* l l'"
  by (rule rtranclp_mono [THEN predicate2D, rotated]) (auto simp: shutdown_step_def)

theorem shutdown_completes_witness:
  "life_run ref_group all_well interrupted_early \<and>
   (shutdown_step ref_group all_well)\<^sup>*\<^sup>* interrupted_early (closed_well 0) \<and>
   lc_main (closed_well 0) = Exited 0 \<and> wfP (\<lambda>y x. shutdown_step ref_group all_well x y)"
proof -
  have run: "life_run ref_group all_well interrupted_early"
    using life_step.interrupt [where L = ref_group and A = all_well and l = "life_start all_well"]
    by (auto simp: interrupted_early_def life_start_def)
  have steps: "(shutdown_step ref_group all_well)\<^sup>*\<^sup>* interrupted_early (closed_well 0)"
    using steps_up [where m = Waiting and b = True] steps_down [of all_well 0] unfolding interrupted_early_def by (rule rtranclp_trans)
  have c: "cancelled ref_group interrupted_early"
    by (simp add: cancelled_def interrupted_early_def)
  have stuck: "\<nexists>l. shutdown_step ref_group all_well (closed_well 0) l"
    using closed_stuck by (auto simp: shutdown_step_def)
  from shutdown_completes [OF ref_group.server_group_axioms run c steps stuck] run steps
  show ?thesis by (simp add: closed_well_def)
qed

text \<open>
  Web requests are not awaited: there is a run in which an interrupted program exits with
  status 0 while a request is still being served.
\<close>

lemma request_cut_off:
  "life_run ref_group all_well (closed_well 1) \<and> lc_requests (closed_well 1) = 1 \<and> lc_main (closed_well 1) = Exited 0"
proof -
  have a: "(life_step ref_group all_well)\<^sup>*\<^sup>* (life_start all_well) (up_with False 0 Selecting)"
    using shutdown_life [OF steps_up [where m = Selecting and b = False]] by (simp add: life_start_def)
  have b: "life_step ref_group all_well (up_with False 0 Selecting) (up_with False 1 Selecting)"
    using life_step.request_begins [where L = ref_group and A = all_well and l = "up_with False 0 Selecting"] by simp
  have c: "life_step ref_group all_well (up_with False 1 Selecting) (up_with True 1 Waiting)"
    using life_step.interrupt [where L = ref_group and A = all_well and l = "up_with False 1 Selecting"] by simp
  have d: "(life_step ref_group all_well)\<^sup>*\<^sup>* (up_with True 1 Waiting) (closed_well 1)"
    by (rule shutdown_life [OF steps_down])
  show ?thesis using rtranclp_trans [OF rtranclp.rtrancl_into_rtrancl [OF rtranclp.rtrancl_into_rtrancl [OF a b] c] d]
    by (simp add: closed_well_def)
qed

end
