(* ===== verification/Spec2Isabelle.thy ===== *)
theory Spec2Isabelle
  imports Unlock_Race Key_Race Page_Links Lifecycle
begin

text \<open>
  Verification of csi-secret-age, a Kubernetes CSI secrets provider. The program keeps its
  secrets in one JSON document that is encrypted with \<^verbatim>\<open>age\<close> and stored in the entry
  \<^verbatim>\<open>vault.enc\<close> of one Kubernetes Secret. Pods get secrets as files through a gRPC provider;
  administrators read the tree of names and write secrets through a web interface; a
  permissions file, reloaded when it changes, says who may do what.

  \<^bold>\<open>The parts and how they interact.\<close> \<^verbatim>\<open>main\<close> (main.go) resolves the configuration
  (config.go), chooses a provider of the master key (keyprovider*.go, awskms, gcpkms), builds
  the vault manager (vault.go) and the permission manager (permissions.go), and runs three
  goroutines: the watcher of the permissions file, the CSI provider (csi.go) and the web
  handler (ui.go). The last two call the vault manager, which reads and writes the Secret,
  and ask the tables of the permission manager, which the watcher reloads.

  \<^bold>\<open>The theories and the code.\<close>

  \<^item> \<^theory_text>\<open>Vault_Prelude\<close>: byte strings, Go maps as association lists, results as sums, shared lemmas.
  \<^item> The standard library, defined and not assumed: \<^theory_text>\<open>Go_Strings\<close>, \<^theory_text>\<open>Go_Path\<close>, \<^theory_text>\<open>Go_Base64\<close>,
    \<^theory_text>\<open>Go_Utf8\<close>, \<^theory_text>\<open>Go_Json\<close> (parser and printer), \<^theory_text>\<open>Html_Template\<close> (the escapers of
    \<^verbatim>\<open>html/template\<close> and the query reader of \<^verbatim>\<open>net/url\<close>).
  \<^item> \<^theory_text>\<open>Vault_Paths\<close> (ui.go \<^verbatim>\<open>normalizePath\<close>, \<^verbatim>\<open>validateVaultPath\<close>) and \<^theory_text>\<open>Policy\<close> (permissions.go
    patterns, user permissions, workload policy): the access decisions.
  \<^item> \<^theory_text>\<open>Vault_Tree\<close> and \<^theory_text>\<open>Vault_Json\<close>: the tree (vault.go \<^verbatim>\<open>VaultTree\<close>, the changes of the web
    handlers of ui.go) and its document.
  \<^item> \<^theory_text>\<open>Vault_World\<close>, \<^theory_text>\<open>Vault_Manager\<close>, \<^theory_text>\<open>Vault_Atomic\<close>, \<^theory_text>\<open>Reference_World\<close>, \<^theory_text>\<open>Vault_Properties\<close>,
    \<^theory_text>\<open>Unlock_Race\<close>: the vault manager (vault.go) over the Kubernetes client and \<^verbatim>\<open>age\<close>, its
    contract, a concrete world, its properties, and concurrent calls of \<^verbatim>\<open>Unlock\<close>.
  \<^item> \<^theory_text>\<open>Csi_Mount\<close>, \<^theory_text>\<open>Mount_Properties\<close>: \<^verbatim>\<open>Mount\<close> and \<^verbatim>\<open>Version\<close> (csi.go).
  \<^item> \<^theory_text>\<open>Perm_Load\<close>, \<^theory_text>\<open>Perm_Watch\<close>: \<^verbatim>\<open>Load\<close> and \<^verbatim>\<open>Watch\<close> (permissions.go).
  \<^item> \<^theory_text>\<open>Token_Claims\<close>, \<^theory_text>\<open>Jwks\<close>, \<^theory_text>\<open>Key_Race\<close>, \<^theory_text>\<open>Token_Auth\<close>, \<^theory_text>\<open>Token_Properties\<close>: JWTs, key sets and
    their cache (also with concurrent lookups), access tokens, the construction of the
    permission manager (permissions.go).
  \<^item> \<^theory_text>\<open>Web_Auth\<close>, \<^theory_text>\<open>Tree_View\<close>, \<^theory_text>\<open>Admin_Page\<close>, \<^theory_text>\<open>Admin_UI\<close>, \<^theory_text>\<open>Admin_Properties\<close>, \<^theory_text>\<open>Page_Links\<close>: the web
    interface (ui.go): authentication, the state of a page, its template, the handlers and
    routes, and what follows from all of them.
  \<^item> \<^theory_text>\<open>Settings\<close>, \<^theory_text>\<open>Key_Provider\<close>: configuration and key providers.
  \<^item> \<^theory_text>\<open>Service\<close>, \<^theory_text>\<open>Service_Properties\<close>: the running service, whose steps are mounts, web
    requests, reloads and foreign writes.
  \<^item> \<^theory_text>\<open>Startup\<close>, \<^theory_text>\<open>Startup_Properties\<close>, \<^theory_text>\<open>Lifecycle\<close>: \<^verbatim>\<open>main\<close>, the service it starts, and the
    goroutines up to the exit.

  A struct is a record, an error a constructor of a datatype, a Go call a function that
  threads the state of the world. Panics are results (\<open>Panicked\<close>, \<open>Aborted\<close>). Widths matter in
  one place, the exponent of a JSON web key, which is read through a 64-bit word.

  \<^bold>\<open>The interfaces.\<close> What the code relies on and does not contain is a field of an
  environment record, with its documented behaviour as the assumptions of a locale; client
  lemmas are proved once inside. \<open>optimistic_store\<close> (a stale resource version is rejected) and
  \<open>age_cipher\<close> (decryption undoes encryption) join in \<open>vault_service\<close>, which \<open>web_service\<close>
  extends; \<open>yaml_decoder\<close>; \<open>jwks_provider\<close>, \<open>jwks_clock\<close> and \<open>token_library\<close>; \<open>server_group\<close>
  (the goroutine group and the gRPC server). Between parts of the program: \<open>pattern_policy\<close>, a
  \<open>path_policy\<close>, interpreted for web users, workloads and the provider's own check, and
  \<open>master_key_provider\<close>, interpreted for each of the three providers and their choice.
  Every contract of the outside is interpreted on concrete functions, on which the
  witnesses run.

  \<^bold>\<open>What the lemmas show.\<close>

  \<^item> Access: a pattern denotes a set of tree nodes, and every check decides membership of the
    node that a path denotes, however it is spelt; mounts, pages, writes, the key and the
    export are confined to what the document in force grants, for single calls, for whole
    runs, and for a service that \<^verbatim>\<open>main\<close> started.
  \<^item> The vault: updates are atomic under concurrent writers and commit once or not at all;
    what is saved is loaded back (values that are not UTF-8 repaired, as \<^verbatim>\<open>json.Marshal\<close>
    does); whatever bytes are stored, a loaded tree is well formed as a value; the tree
    invariant is kept; the conflict check and the update refine the insertion into a map
    from segment lists.
  \<^item> Tokens: an accepted token is one that a trusted key, or the provider, vouches for now;
    concurrent key lookups fetch at most once per interval while their keys are served.
  \<^item> The permissions file: a load installs what the document denotes; the watch settles on
    the current file, and the ways in which it does not are stated too.
  \<^item> Pages: the listing is exact, nothing unreadable or secret is in a page, no text can add
    markup, and every link leads where it says.
  \<^item> Start and end: where the key comes from, and that the program exits after a shutdown,
    with which status, and what it may cut off.

  \<^bold>\<open>Bounds and fuel.\<close> \<^verbatim>\<open>UpdateVault\<close> makes at most five attempts (\<open>maxRetries\<close>); its loop recurses
  on the attempts left. The JSON parser recurses on fuel, twice the length of the input
  plus one, which \<open>parse_fuel\<close> proves enough; its nesting limit is the library's 10000. The
  watcher's debounce is 100 ms. \<open>settle_step\<close> and \<open>shutdown_step\<close> have measures, so their
  sequences end. No other definition has a bound of the model.

  \<^bold>\<open>What is not modelled.\<close> \<^verbatim>\<open>env.Parse\<close>, which fills the configuration, is a library; log lines
  and the wiping of memory by \<^verbatim>\<open>runtime/secret\<close> have no effect on results. Third-party code is
  a parameter: the Kubernetes client, \<^verbatim>\<open>age\<close>, YAML, the JWT and OIDC libraries, the SDKs of the
  key services, fsnotify (as the events of the watched file), the goroutine group, gRPC; of
  the standard library, PEM and X.509, SHA-256, \<^verbatim>\<open>url.Parse\<close> of an origin, HTTP transport, files,
  sockets and the clock. The texts of most errors are abstract. Simplifications: a JSON \<^verbatim>\<open>null\<close>
  in place of a node, which Go stores as a nil pointer, is refused; \<^verbatim>\<open>ServeMux\<close> is modelled for
  clean paths; in \<^theory_text>\<open>Service\<close> a call is one step, with foreign writes inside it, while the
  interleavings that the locks of \<^verbatim>\<open>Unlock\<close> and \<^verbatim>\<open>getKey\<close> allow have their own theories;
  the deadlines of contexts do not expire.
\<close>

end
